(* ===== verification/Prelude.thy ===== *)
theory Prelude
  imports Main "HOL-Library.Word" "HOL-Library.AList" "HOL-Library.Multiset"
begin

section \<open>Prelude: the types, names and generic lemmas every component shares\<close>

text \<open>
  The vocabulary of the development: machine integers at the width the Rust code gives them,
  byte strings, instants and durations, panics as values, the result of polling a future,
  and the lemma collections the component theories add to. Nothing here models a file of the
  repository; the containers are in \<open>Hash_Sets\<close>.
\<close>

subsection \<open>Type names\<close>

type_synonym u8 = "8 word"
type_synonym u16 = "16 word"
type_synonym u32 = "32 word"
type_synonym u64 = "64 word"
type_synonym bytes = "u8 list"

text \<open>
  \<open>std::time::Instant\<close> is a point on a line that never runs backwards and
  \<open>Duration\<close> an unsigned length; both count nanoseconds. A handler that reads the clock
  several times takes its readings from a \<open>clock\<close>: reading number \<open>i\<close> of the call is
  \<open>clk i\<close>. \<open>Instant\<close> is documented as monotonically nondecreasing, which is the hypothesis
  \<open>mono clk\<close> where a result needs it.
\<close>

type_synonym instant = int
type_synonym duration = nat
type_synonym clock = "nat \<Rightarrow> instant"

definition clock_from :: "clock \<Rightarrow> nat \<Rightarrow> clock" where
  "clock_from clk n = (\<lambda>i. clk (n + i))"

text \<open>
  \<open>Instant::duration_since\<close> saturates: an earlier instant is at distance zero.
\<close>

definition duration_since :: "instant \<Rightarrow> instant \<Rightarrow> int" where
  "duration_since a b = max 0 (a - b)"

text \<open>
  A panic unwinds the task that runs the handler, so an operation that can panic returns a
  sum with the panic on the left. The constructors are the ways this code can panic:
  \<open>unwrap\<close> on \<open>None\<close> or \<open>Err\<close>, \<open>expect\<close>, a range whose start is past its
  end or past the container, a conversion of a slice of the wrong length, and
  \<open>unreachable!\<close>.
\<close>

datatype panic = Unwrap_None | Unwrap_Err | Expect_Failed | Slice_Range | Unreachable

text \<open>The result of polling a future or a stream once.\<close>

datatype 'a poll = Ready 'a | Pending

named_theorems episub_ops \<open>definitions of the network behaviour's operations\<close>

subsection \<open>Words\<close>

text \<open>Rust's \<open>saturating_sub\<close> on an unsigned width.\<close>

definition saturating_sub :: "'a::len word \<Rightarrow> 'a word \<Rightarrow> 'a word" where
  "saturating_sub x y = (if y \<le> x then x - y else 0)"

lemma unat_saturating_sub: "unat (saturating_sub x y) = unat x - unat y"
  by (simp add: saturating_sub_def unat_sub word_le_nat_alt)

subsection \<open>Sums\<close>

text \<open>Continue with the value unless the computation panicked (or failed).\<close>

definition on_ok :: "'e + 'a \<Rightarrow> ('a \<Rightarrow> 'e + 'b) \<Rightarrow> 'e + 'b" where
  "on_ok r f = (case r of Inl e \<Rightarrow> Inl e | Inr a \<Rightarrow> f a)"

lemma on_ok_simps [simp]:
  "on_ok (Inl e) f = Inl e"
  "on_ok (Inr a) f = f a"
  by (simp_all add: on_ok_def)

lemma on_ok_Inr_iff: "on_ok r f = Inr b \<longleftrightarrow> (\<exists>a. r = Inr a \<and> f a = Inr b)"
  by (cases r) auto

lemma on_ok_Inl_iff: "on_ok r f = Inl e \<longleftrightarrow> r = Inl e \<or> (\<exists>a. r = Inr a \<and> f a = Inl e)"
  by (cases r) auto

subsection \<open>Association lists and lists\<close>

lemma map_of_map_snd: "map_of (map (\<lambda>(k, v). (k, f v)) m) k = map_option f (map_of m k)"
  by (induction m) auto

lemma fst_map_snd: "map fst (map (\<lambda>(k, v). (k, f v)) m) = map fst m"
  by (induction m) auto

lemma length_filter_remove1_key:
  assumes "distinct (map f xs)" and "x \<in> set xs"
  shows "Suc (length (filter (\<lambda>y. f y \<noteq> f x) xs)) = length xs"
  using assms
proof (induction xs)
  case Nil
  then show ?case by simp
next
  case (Cons y ys)
  show ?case
  proof (cases "f y = f x")
    case True
    with Cons.prems(1) have "\<forall>z \<in> set ys. f z \<noteq> f x"
      by (auto simp: image_iff)
    then have "filter (\<lambda>y. f y \<noteq> f x) ys = ys" by simp
    with True show ?thesis by simp
  next
    case False
    with Cons.prems have "x \<in> set ys" by auto
    with Cons False show ?thesis by simp
  qed
qed

lemma distinct_map_filter_key: "distinct (map f xs) \<Longrightarrow> distinct (map f (filter P xs))"
  by (induction xs) (auto simp: image_iff)

lemma set_alist_update: "set (AList.update k v al) \<subseteq> insert (k, v) (set al)"
  by (induction al) auto

text \<open>A map over the values of an association list that also sees their positions.\<close>

lemma map_fst_numbered: "map fst (map (\<lambda>(k, t, m). (t, f k t m)) (zip [0..<length xs] xs)) = map fst xs"
  by (rule nth_equalityI) (simp_all add: case_prod_beta)

lemma option_eqI: "(\<And>a. x = Some a \<longleftrightarrow> y = Some a) \<Longrightarrow> x = y"
  by (cases x; cases y) auto

lemma find_append: "find P (xs @ ys) = (case find P xs of None \<Rightarrow> find P ys | Some x \<Rightarrow> Some x)"
  by (induction xs) auto

lemma foldl_preserves:
  assumes "P s" and "\<And>s x. P s \<Longrightarrow> x \<in> set xs \<Longrightarrow> P (f s x)"
  shows "P (foldl f s xs)"
  using assms by (induction xs arbitrary: s) auto

end
