(* ===== verification/Hash_Sets.thy ===== *)
theory Hash_Sets
  imports Prelude
begin

section \<open>The standard library's hash containers\<close>

text \<open>
  A \<open>HashSet<T>\<close> is the list of its elements in the order an iteration visits them, no two
  equal under \<open>T\<close>'s \<open>Eq\<close>. That equality is not always equality of values: an
  \<open>AddressablePeer\<close> is identified by its peer id and a \<open>MessageInfo\<close> by its message id, so
  every operation takes the \<open>key\<close> that \<open>Eq\<close> and \<open>Hash\<close> look at. Nothing is assumed about the
  order: a property that mentions a set quantifies over every list that represents it.
  \<open>HashSet::insert\<close> keeps the element already stored when an equal one is inserted;
  its boolean result is the negation of \<open>hs_contains\<close> before the call.
\<close>

definition hs_contains :: "('a \<Rightarrow> 'k) \<Rightarrow> 'a \<Rightarrow> 'a list \<Rightarrow> bool" where
  "hs_contains key x xs \<longleftrightarrow> key x \<in> key ` set xs"

definition hs_insert :: "('a \<Rightarrow> 'k) \<Rightarrow> 'a \<Rightarrow> 'a list \<Rightarrow> 'a list" where
  "hs_insert key x xs = (if hs_contains key x xs then xs else xs @ [x])"

definition hs_remove :: "('a \<Rightarrow> 'k) \<Rightarrow> 'a \<Rightarrow> 'a list \<Rightarrow> 'a list" where
  "hs_remove key x xs = filter (\<lambda>y. key y \<noteq> key x) xs"

definition hs_difference :: "('a \<Rightarrow> 'k) \<Rightarrow> 'a list \<Rightarrow> 'a list \<Rightarrow> 'a list" where
  "hs_difference key xs ys = filter (\<lambda>x. \<not> hs_contains key x ys) xs"

text \<open>
  \<open>HashSet::union\<close> visits the larger set whole, then what the other has beyond it (the first
  set when they are equally large): where both hold an element with the same key, the one of the
  larger set is visited.
\<close>

definition hs_union :: "('a \<Rightarrow> 'k) \<Rightarrow> 'a list \<Rightarrow> 'a list \<Rightarrow> 'a list" where
  "hs_union key xs ys =
     (if length ys \<le> length xs then xs @ hs_difference key ys xs
      else ys @ hs_difference key xs ys)"

text \<open>\<open>iter.collect::<HashSet<_>>()\<close>: insert one by one, so the first of equal elements stays.\<close>

definition hs_collect :: "('a \<Rightarrow> 'k) \<Rightarrow> 'a list \<Rightarrow> 'a list" where
  "hs_collect key xs = foldl (\<lambda>s x. hs_insert key x s) [] xs"

definition hs_wf :: "('a \<Rightarrow> 'k) \<Rightarrow> 'a list \<Rightarrow> bool" where
  "hs_wf key xs \<longleftrightarrow> distinct (map key xs)"

definition hs_keys :: "('a \<Rightarrow> 'k) \<Rightarrow> 'a list \<Rightarrow> 'k set" where
  "hs_keys key xs = key ` set xs"

subsection \<open>The interface the components use\<close>

text \<open>
  A set with an abstraction to the set of its keys: what a client of a \<open>HashSet\<close> relies on.
  The laws are those of the documented operations; the lemmas below follow from them alone.
\<close>

locale keyed_set =
  fixes contains :: "'a \<Rightarrow> 's \<Rightarrow> bool"
    and insert_elem :: "'a \<Rightarrow> 's \<Rightarrow> 's"
    and remove_elem :: "'a \<Rightarrow> 's \<Rightarrow> 's"
    and count :: "'s \<Rightarrow> nat"
    and key_of :: "'a \<Rightarrow> 'k"
    and keys_of :: "'s \<Rightarrow> 'k set"
    and wf_set :: "'s \<Rightarrow> bool"
  assumes contains_iff: "contains x s \<longleftrightarrow> key_of x \<in> keys_of s"
    and keys_insert: "keys_of (insert_elem x s) = insert (key_of x) (keys_of s)"
    and keys_remove: "keys_of (remove_elem x s) = keys_of s - {key_of x}"
    and wf_insert: "wf_set s \<Longrightarrow> wf_set (insert_elem x s)"
    and wf_remove: "wf_set s \<Longrightarrow> wf_set (remove_elem x s)"
    and count_keys: "wf_set s \<Longrightarrow> count s = card (keys_of s)"
    and finite_keys: "finite (keys_of s)"
    and insert_present: "contains x s \<Longrightarrow> insert_elem x s = s"
begin

lemma count_insert:
  "wf_set s \<Longrightarrow> count (insert_elem x s) = (if contains x s then count s else Suc (count s))"
  by (simp add: count_keys keys_insert wf_insert contains_iff finite_keys insert_absorb)

lemma count_remove:
  "wf_set s \<Longrightarrow> count (remove_elem x s) = (if contains x s then count s - 1 else count s)"
  by (simp add: count_keys keys_remove wf_remove contains_iff finite_keys card_Diff_singleton_if)

lemma contains_insert: "contains y (insert_elem x s) \<longleftrightarrow> key_of y = key_of x \<or> contains y s"
  by (simp add: contains_iff keys_insert)

lemma contains_remove: "contains y (remove_elem x s) \<longleftrightarrow> key_of y \<noteq> key_of x \<and> contains y s"
  by (auto simp: contains_iff keys_remove)

lemma move_keys:
  "keys_of (remove_elem x a) \<union> keys_of (insert_elem x b) = insert (key_of x) (keys_of a \<union> keys_of b)"
  by (auto simp: keys_insert keys_remove)

end

subsection \<open>The list operations satisfy it for every key\<close>

lemma hs_keys_simps [simp]:
  "hs_keys key [] = {}"
  "hs_keys key (x # xs) = insert (key x) (hs_keys key xs)"
  "hs_keys key (xs @ ys) = hs_keys key xs \<union> hs_keys key ys"
  "hs_keys key (hs_insert key x xs) = insert (key x) (hs_keys key xs)"
  "hs_keys key (hs_remove key x xs) = hs_keys key xs - {key x}"
  "hs_keys key (hs_difference key xs ys) = hs_keys key xs - hs_keys key ys"
  "hs_keys key (hs_union key xs ys) = hs_keys key xs \<union> hs_keys key ys"
  by (auto simp: hs_keys_def hs_insert_def hs_contains_def hs_remove_def hs_union_def
      hs_difference_def)

lemma finite_hs_keys [simp]: "finite (hs_keys key xs)"
  by (simp add: hs_keys_def)

lemma hs_contains_iff: "hs_contains key x xs \<longleftrightarrow> key x \<in> hs_keys key xs"
  by (simp add: hs_contains_def hs_keys_def)

lemma hs_wf_simps [simp]:
  "hs_wf key []"
  "hs_wf key xs \<Longrightarrow> hs_wf key (hs_insert key x xs)"
  "hs_wf key xs \<Longrightarrow> hs_wf key (hs_remove key x xs)"
  "hs_wf key xs \<Longrightarrow> hs_wf key (filter P xs)"
  "hs_wf key xs \<Longrightarrow> hs_wf key (hs_difference key xs ys)"
  by (auto simp: hs_wf_def hs_insert_def hs_remove_def hs_contains_def hs_difference_def
      distinct_map_filter_key image_iff)

lemma hs_wf_append:
  "hs_wf key (xs @ ys) \<longleftrightarrow> hs_wf key xs \<and> hs_wf key ys \<and> hs_keys key xs \<inter> hs_keys key ys = {}"
  by (simp add: hs_wf_def hs_keys_def)

lemma hs_wf_single [simp]: "hs_wf key [x]"
  by (simp add: hs_wf_def)

lemma hs_wf_append_difference:
  "hs_wf key xs \<Longrightarrow> hs_wf key ys \<Longrightarrow> hs_wf key (xs @ hs_difference key ys xs)"
  by (simp add: hs_wf_append Int_Diff Diff_disjoint)

lemma hs_wf_union [simp]: "hs_wf key xs \<Longrightarrow> hs_wf key ys \<Longrightarrow> hs_wf key (hs_union key xs ys)"
  by (simp add: hs_union_def hs_wf_append_difference)

lemma hs_wf_length: "hs_wf key xs \<Longrightarrow> length xs = card (hs_keys key xs)"
  using distinct_card [of "map key xs"] by (simp add: hs_wf_def hs_keys_def)

lemma hs_collect_wf [simp]: "hs_wf key (hs_collect key xs)"
  unfolding hs_collect_def by (rule foldl_preserves) auto

lemma hs_keys_foldl_insert:
  "hs_keys key (foldl (\<lambda>s x. hs_insert key x s) s xs) = hs_keys key s \<union> hs_keys key xs"
  by (induction xs arbitrary: s) auto

lemma hs_keys_collect [simp]: "hs_keys key (hs_collect key xs) = hs_keys key xs"
  by (simp add: hs_collect_def hs_keys_foldl_insert)

lemma hs_insert_subset: "set (hs_insert key x xs) \<subseteq> insert x (set xs)"
  by (auto simp: hs_insert_def)

lemma hs_collect_subset: "set (hs_collect key xs) \<subseteq> set xs"
proof -
  have "set (foldl (\<lambda>s x. hs_insert key x s) s xs) \<subseteq> set s \<union> set xs" for s
  proof (induction xs arbitrary: s)
    case (Cons x xs)
    from Cons [of "hs_insert key x s"] hs_insert_subset [of key x s] show ?case by auto
  qed simp
  from this [of "[]"] show ?thesis by (simp add: hs_collect_def)
qed

lemma hs_collect_distinct: "hs_wf key xs \<Longrightarrow> hs_collect key xs = xs"
proof -
  have "hs_wf key (s @ xs) \<Longrightarrow> foldl (\<lambda>s x. hs_insert key x s) s xs = s @ xs" for s
  proof (induction xs arbitrary: s)
    case (Cons x xs)
    then have "hs_insert key x s = s @ [x]"
      by (auto simp: hs_insert_def hs_contains_def hs_wf_def)
    with Cons.IH [of "s @ [x]"] Cons.prems show ?case by simp
  qed simp
  from this [of "[]"] show "hs_wf key xs \<Longrightarrow> hs_collect key xs = xs"
    by (simp add: hs_collect_def)
qed

lemma keyed_set_lists:
  "keyed_set (hs_contains key) (hs_insert key) (hs_remove key) length key (hs_keys key) (hs_wf key)"
  by unfold_locales (auto simp: hs_contains_iff hs_wf_length hs_insert_def hs_wf_append)

text \<open>A \<open>HashSet<PeerId>\<close> (and every set whose \<open>Eq\<close> is equality) has the identity as key.\<close>

interpretation plain_set: keyed_set "hs_contains id" "hs_insert id" "hs_remove id" length id
  "hs_keys id" "hs_wf id"
  by (rule keyed_set_lists)

lemma hs_keys_id [simp]: "hs_keys id xs = set xs"
  by (simp add: hs_keys_def)

lemma hs_contains_id [simp]: "hs_contains id x xs \<longleftrightarrow> x \<in> set xs"
  by (simp add: hs_contains_def)

lemma set_hs_insert_id [simp]: "set (hs_insert id x xs) = insert x (set xs)"
  by (auto simp: hs_insert_def)

lemma set_hs_remove_id [simp]: "set (hs_remove id x xs) = set xs - {x}"
  by (auto simp: hs_remove_def)

end
