(* ===== verification/Wire.thy ===== *)
theory Wire
  imports Hash_Sets
begin

section \<open>Peers, protocol messages and behaviour actions\<close>

text \<open>
  The data every component exchanges: the identity of a node (\<open>AddressablePeer\<close> of
  \<open>src/src/network/episub/view.rs\<close>), the messages of \<open>rpc.proto\<close>, the errors of
  \<open>error.rs\<close>, the events and actions of \<open>behaviour.rs\<close>, and the conversions between a
  peer and its wire form.

  \<open>PeerId\<close> and \<open>Multiaddr\<close> are types of the libp2p crate. A peer id is only ever compared,
  printed and converted to and from bytes, so it is its byte string under a constructor. A
  multiaddress is used through the list of protocols its iterator yields; the constructors are
  the protocols this code names, and one for all the others. Their byte encodings are code
  outside the repository: the record \<open>wire_codec\<close> of functions is a parameter of every
  definition that converts.
\<close>

subsection \<open>Identities\<close>

datatype peer_id = PeerId bytes

datatype protocol = Ip4 u32 | Ip6 "128 word" | Tcp u16 | Other_Protocol bytes

type_synonym multiaddr = "protocol list"

text \<open>\<open>AddressablePeer\<close>: an id and a set of addresses at which the node may be dialed.\<close>

record addressable_peer =
  peer_id :: peer_id
  addresses :: "multiaddr list"

text \<open>
  Its \<open>PartialEq\<close> and \<open>Hash\<close> look at the id only, so a \<open>HashSet<AddressablePeer>\<close> is keyed by
  \<open>peer_id\<close>: inserting a known peer under new addresses changes nothing.
\<close>

definition peer_eq :: "addressable_peer \<Rightarrow> addressable_peer \<Rightarrow> bool" where
  "peer_eq a b \<longleftrightarrow> peer_id a = peer_id b"

lemma hs_contains_peer_eq: "hs_contains peer_id x xs \<longleftrightarrow> (\<exists>y \<in> set xs. peer_eq x y)"
  by (auto simp: hs_contains_def peer_eq_def)

interpretation peer_set: keyed_set "hs_contains peer_id" "hs_insert peer_id" "hs_remove peer_id"
  length peer_id "hs_keys peer_id" "hs_wf peer_id"
  by (rule keyed_set_lists)

text \<open>\<open>AddressablePeer { peer_id, addresses: HashSet::new() }\<close>, the probe of a membership test.\<close>

definition probe :: "peer_id \<Rightarrow> addressable_peer" where
  "probe p = \<lparr>peer_id = p, addresses = []\<rparr>"

lemma peer_id_probe [simp]: "peer_id (probe p) = p"
  by (simp add: probe_def)

subsection \<open>Messages of rpc.proto\<close>

record wire_peer =
  wp_peer_id :: bytes
  wp_addresses :: "bytes list"

text \<open>
  The alternatives of \<open>oneof Action\<close>, each with its message's fields. An enumeration field of
  a message is an \<open>i32\<close> that may hold any value, which is why \<open>Neighbor\<close> carries a word.
\<close>

datatype rpc_action =
    Join u32 wire_peer
  | ForwardJoin u32 wire_peer
  | Neighbor wire_peer "32 word"
  | Shuffle u32 wire_peer "wire_peer list"
  | ShuffleReply "wire_peer list"
  | Disconnect bool
  | Message u64 u32 bytes
  | IHave "(u64 \<times> u32) list"
  | Prune
  | Graft "u64 list"

record rpc =
  rpc_topic :: string
  rpc_action :: "rpc_action option"

definition rpc_of :: "string \<Rightarrow> rpc_action \<Rightarrow> rpc" where
  "rpc_of t a = \<lparr>rpc_topic = t, rpc_action = Some a\<rparr>"

lemma rpc_of_simps [simp]:
  "rpc_topic (rpc_of t a) = t"
  "rpc_action (rpc_of t a) = Some a"
  "rpc_of t a = rpc_of t' a' \<longleftrightarrow> t = t' \<and> a = a'"
  by (simp_all add: rpc_of_def)

definition priority_low :: "32 word" where "priority_low = 0"
definition priority_high :: "32 word" where "priority_high = 1"

lemma priority_distinct [simp]: "priority_low \<noteq> priority_high" "priority_high \<noteq> priority_low"
  by (simp_all add: priority_low_def priority_high_def)

subsection \<open>Errors\<close>

datatype io_error_kind = PermissionDenied | BrokenPipe | InvalidInput | Other_Kind
datatype io_error = Io_Error io_error_kind string

datatype handler_error = MaxTransmissionSize | Handler_Io io_error
datatype publish_error = TopicNotSubscribed | Publish_Io io_error
datatype rpc_error = InvalidPeerId | ImpersonatedPeer peer_id peer_id
datatype format_error = Format_Multihash | Format_Multiaddr string

subsection \<open>Events and actions\<close>

datatype episub_event =
    EvMessage string u64 bytes
  | Subscribed string
  | PeerAdded peer_id
  | PeerRemoved peer_id
  | Unsubscribed string

type_synonym connection_id = nat

text \<open>
  \<open>NetworkBehaviourAction<EpisubEvent, EpisubHandler, rpc::Rpc>\<close>. Every notification of this
  code goes to \<open>NotifyHandler::Any\<close>, every dial is under the condition
  \<open>PeerCondition::Disconnected\<close> and every close is of one connection, so these constants are
  not repeated. \<open>Dial\<close> carries the peer, its addresses, and the two arguments of the
  \<open>EpisubHandler::new\<close> it is built with: the frame limit and whether the connection is temporary.
\<close>

datatype action =
    GenerateEvent episub_event
  | NotifyHandler peer_id rpc
  | Dial peer_id "multiaddr list" nat bool
  | CloseConnection peer_id connection_id

subsection \<open>Conversion to and from the wire\<close>

record wire_codec =
  peer_id_from_bytes :: "bytes \<Rightarrow> peer_id option"
  peer_id_to_bytes :: "peer_id \<Rightarrow> bytes"
  multiaddr_from_bytes :: "bytes \<Rightarrow> multiaddr option"
  multiaddr_to_bytes :: "multiaddr \<Rightarrow> bytes"

text \<open>
  \<open>TryFrom<rpc::AddressablePeer>\<close>: a malformed id is an error, a malformed address is dropped.
\<close>

definition try_from_wire :: "wire_codec \<Rightarrow> wire_peer \<Rightarrow> format_error + addressable_peer" where
  "try_from_wire w v =
     (case peer_id_from_bytes w (wp_peer_id v) of
        None \<Rightarrow> Inl Format_Multihash
      | Some p \<Rightarrow>
          Inr \<lparr>peer_id = p,
               addresses = hs_collect id (List.map_filter (multiaddr_from_bytes w) (wp_addresses v))\<rparr>)"

definition into_wire :: "wire_codec \<Rightarrow> addressable_peer \<Rightarrow> wire_peer" where
  "into_wire w p =
     \<lparr>wp_peer_id = peer_id_to_bytes w (peer_id p),
      wp_addresses = map (multiaddr_to_bytes w) (addresses p)\<rparr>"

text \<open>\<open>filter_map(|n| n.try_into().ok())\<close> over the peers of a shuffle or of its reply.\<close>

definition ok_peers :: "wire_codec \<Rightarrow> wire_peer list \<Rightarrow> addressable_peer list" where
  "ok_peers w ns = List.map_filter (\<lambda>n. case try_from_wire w n of Inl _ \<Rightarrow> None | Inr p \<Rightarrow> Some p) ns"

text \<open>
  What libp2p documents of its encodings, for one peer: decoding the encoding of its id and of
  each of its addresses gives them back.
\<close>

definition codec_roundtrips :: "wire_codec \<Rightarrow> addressable_peer \<Rightarrow> bool" where
  "codec_roundtrips w p \<longleftrightarrow>
     peer_id_from_bytes w (peer_id_to_bytes w (peer_id p)) = Some (peer_id p) \<and>
     (\<forall>a \<in> set (addresses p). multiaddr_from_bytes w (multiaddr_to_bytes w a) = Some a)"

lemma map_filter_inverse:
  "(\<And>a. a \<in> set xs \<Longrightarrow> g (f a) = Some a) \<Longrightarrow> List.map_filter g (map f xs) = xs"
  by (induction xs) (auto simp: List.map_filter_simps)

lemma try_from_into_wire:
  assumes "codec_roundtrips w p" and "hs_wf id (addresses p)"
  shows "try_from_wire w (into_wire w p) = Inr p"
  using assms
  by (simp add: try_from_wire_def into_wire_def codec_roundtrips_def map_filter_inverse
      hs_collect_distinct)

lemma ok_peers_into_wire:
  assumes "\<And>p. p \<in> set ps \<Longrightarrow> codec_roundtrips w p \<and> hs_wf id (addresses p)"
  shows "ok_peers w (map (into_wire w) ps) = ps"
  using assms
  by (induction ps) (auto simp: ok_peers_def List.map_filter_simps try_from_into_wire)

text \<open>A concrete codec, for evaluating the model: ids and addresses of two opaque bytes.\<close>

definition toy_addr_bytes :: "multiaddr \<Rightarrow> bytes" where
  "toy_addr_bytes a = concat (map (\<lambda>p. case p of Other_Protocol b \<Rightarrow> b | _ \<Rightarrow> []) a)"

definition toy_wire :: wire_codec where
  "toy_wire = \<lparr>peer_id_from_bytes = (\<lambda>b. if b = [] then None else Some (PeerId b)),
               peer_id_to_bytes = (\<lambda>p. case p of PeerId b \<Rightarrow> b),
               multiaddr_from_bytes = (\<lambda>b. Some [Other_Protocol b]),
               multiaddr_to_bytes = toy_addr_bytes\<rparr>"

end
