(* ===== verification/Config.thy ===== *)
theory Config
  imports Complex_Main "HOL-Library.Log_Nat" Wire
begin

section \<open>Configuration and the sizes derived from it\<close>

text \<open>
  \<open>Config\<close> of \<open>src/src/network/episub/config.rs\<close>. Sizes are natural numbers (a \<open>usize\<close> that
  never gets near its limit), durations nanoseconds. The logarithms are computed on reals: the
  rounding error of \<open>f64\<close> is not modelled, and \<open>max_active_view_size_exec\<close> shows that the
  results depend on whether a power of two lies below a whole number, never on a rounding.
  \<open>log2(0)\<close> is minus infinity, which the saturating cast turns into zero.
\<close>

record config =
  network_size :: nat
  active_view_factor :: nat
  passive_view_factor :: nat
  max_transmit_size :: nat
  shuffle_interval :: duration
  shuffle_probability :: rat
  lazy_push_window :: duration
  history_window :: duration
  tick_frequency :: duration
  optimize_sender_tree :: bool
  hop_optimization_factor :: u32
  enable_compression :: bool
  compression_level :: int
  authorizer :: "string \<Rightarrow> peer_id \<Rightarrow> bool"

text \<open>\<open>PeerAuthorizer::allow\<close> applies the predicate the authorizer was built from.\<close>

definition allow :: "config \<Rightarrow> string \<Rightarrow> peer_id \<Rightarrow> bool" where
  "allow c topic p = authorizer c topic p"

definition max_active_view_size :: "config \<Rightarrow> nat" where
  "max_active_view_size c =
     (if network_size c = 0 then 0
      else nat (round (log 2 (real (network_size c)) + real (active_view_factor c))))"

definition min_active_view_size :: "config \<Rightarrow> nat" where
  "min_active_view_size c = max (max_active_view_size c div 2) 1"

definition max_passive_view_size :: "config \<Rightarrow> nat" where
  "max_passive_view_size c = max_active_view_size c * passive_view_factor c"

definition active_walk_length :: "config \<Rightarrow> nat" where
  "active_walk_length c =
     max 2 (min 6 (if network_size c = 0 then 0 else nat \<lfloor>log 2 (real (network_size c))\<rfloor>))"

definition shuffle_max_size :: "config \<Rightarrow> nat" where
  "shuffle_max_size c = max_active_view_size c * 2"

definition millis :: "nat \<Rightarrow> duration" where "millis n = n * 1000000"
definition secs :: "nat \<Rightarrow> duration" where "secs n = n * 1000000000"

definition default_config :: config where
  "default_config =
     \<lparr>network_size = 1000, active_view_factor = 1, passive_view_factor = 6,
      max_transmit_size = 1024000, shuffle_interval = secs 60, shuffle_probability = 1,
      lazy_push_window = secs 2, history_window = secs 30, tick_frequency = millis 200,
      optimize_sender_tree = True, hop_optimization_factor = 4, enable_compression = True,
      compression_level = 0, authorizer = (\<lambda>_ _. True)\<rparr>"

subsection \<open>Integer forms of the logarithmic sizes\<close>

lemma floor_log2_half:
  assumes "0 < n"
  shows "\<lfloor>log 2 (real n) + 1 / 2\<rfloor> = \<lfloor>log 2 (real (2 * n * n))\<rfloor> div 2"
proof -
  have "log 2 (real (2 * n * n)) = 1 + 2 * log 2 (real n)"
    using assms by (simp add: log_mult)
  then have "log 2 (real n) + 1 / 2 = log 2 (real (2 * n * n)) / real_of_int 2"
    by simp
  then show ?thesis by (simp only: floor_divide_real_eq_div)
qed

text \<open>The nearest whole number to \<open>log2 n\<close>, on natural numbers only.\<close>

definition round_log2 :: "nat \<Rightarrow> nat" where
  "round_log2 n = (floorlog 2 (2 * n * n) - 1) div 2"

lemma nat_floor_log2:
  assumes "0 < n"
  shows "nat \<lfloor>log 2 (real n)\<rfloor> = floorlog 2 n - 1"
  using assms by (simp add: floorlog_def)

lemma floor_log2_floorlog:
  assumes "0 < n"
  shows "\<lfloor>log 2 (real n)\<rfloor> = int (floorlog 2 n - 1)"
proof -
  have "0 \<le> \<lfloor>log 2 (real n)\<rfloor>"
    using assms by (simp add: zero_le_log_cancel_iff)
  with nat_floor_log2 [OF assms] show ?thesis by linarith
qed

lemma max_active_view_size_exec [code]:
  "max_active_view_size c =
     (if network_size c = 0 then 0 else round_log2 (network_size c) + active_view_factor c)"
proof (cases "network_size c = 0")
  case False
  let ?n = "network_size c"
  have "\<lfloor>log 2 (real (2 * ?n * ?n))\<rfloor> = int (floorlog 2 (2 * ?n * ?n) - 1)"
    using False by (intro floor_log2_floorlog) simp
  moreover have "round (log 2 (real ?n) + real (active_view_factor c)) =
      \<lfloor>log 2 (real ?n) + 1 / 2\<rfloor> + int (active_view_factor c)"
    unfolding round_def by linarith
  ultimately have "round (log 2 (real ?n) + real (active_view_factor c)) =
      int (round_log2 ?n + active_view_factor c)"
    using False by (simp add: floor_log2_half round_log2_def zdiv_int)
  with False show ?thesis by (simp only: max_active_view_size_def nat_int if_False)
qed (simp add: max_active_view_size_def)

lemma active_walk_length_exec [code]:
  "active_walk_length c = max 2 (min 6 (floorlog 2 (network_size c) - 1))"
  by (cases "network_size c = 0") (auto simp: active_walk_length_def floorlog_def)

subsection \<open>Bounds\<close>

lemma active_walk_length_bounds: "2 \<le> active_walk_length c \<and> active_walk_length c \<le> 6"
  by (auto simp: active_walk_length_def)

lemma unat_active_walk_length:
  "unat (word_of_nat (active_walk_length c) :: u32) = active_walk_length c"
proof -
  have "active_walk_length c < 2 ^ LENGTH(32)"
    using active_walk_length_bounds [of c] by simp
  then show ?thesis by (simp add: unat_of_nat take_bit_nat_eq_self)
qed

lemma min_active_view_size_pos: "0 < min_active_view_size c"
  by (simp add: min_active_view_size_def)

lemma min_active_le_max:
  "0 < max_active_view_size c \<Longrightarrow> min_active_view_size c \<le> max_active_view_size c"
  by (simp add: min_active_view_size_def)

text \<open>A node is never starved and overconnected at once.\<close>

lemma min_active_lt_max:
  "1 < max_active_view_size c \<Longrightarrow> min_active_view_size c < max_active_view_size c"
  by (simp add: min_active_view_size_def)

end
