(* ===== verification/Environment.thy ===== *)
theory Environment
  imports Complex_Main Wire
begin

section \<open>What the code draws from outside\<close>

text \<open>
  The \<open>rand\<close> crate, the iteration order of a hash container built and consumed inside one
  call, and the \<open>zstd\<close> crate are parameters. A random draw is numbered by how many were made
  before it, so two draws from the same collection may differ; every result holds for every
  entropy source that satisfies the documented contract \<open>entropy_ok\<close>.

  \<^item> \<open>choose_one k xs\<close>: \<open>IteratorRandom::choose\<close>, an element, or \<open>None\<close> of an empty iterator;
  \<^item> \<open>choose_multiple k xs n\<close>: a sample without replacement of \<open>n\<close> elements, or of all
    of them when there are fewer;
  \<^item> \<open>sample_unit k\<close>: a draw from \<open>Uniform::new(0.0, 1.0)\<close>, which excludes 1;
  \<^item> \<open>gen_u64 k\<close>: \<open>thread_rng().gen::<u64>()\<close>;
  \<^item> \<open>hash_order k n\<close>: the order in which a container of \<open>n\<close> elements is iterated, as a
    permutation of their indices.
\<close>

record entropy =
  choose_one :: "nat \<Rightarrow> addressable_peer list \<Rightarrow> addressable_peer option"
  choose_multiple :: "nat \<Rightarrow> addressable_peer list \<Rightarrow> nat \<Rightarrow> addressable_peer list"
  sample_unit :: "nat \<Rightarrow> rat"
  gen_u64 :: "nat \<Rightarrow> u64"
  hash_order :: "nat \<Rightarrow> nat \<Rightarrow> nat list"

definition choose_ok :: "entropy \<Rightarrow> bool" where
  "choose_ok r \<longleftrightarrow>
     (\<forall>k xs. case choose_one r k xs of None \<Rightarrow> xs = [] | Some x \<Rightarrow> x \<in> set xs)"

definition choose_multiple_ok :: "entropy \<Rightarrow> bool" where
  "choose_multiple_ok r \<longleftrightarrow>
     (\<forall>k xs n. mset (choose_multiple r k xs n) \<subseteq># mset xs \<and>
               length (choose_multiple r k xs n) = min n (length xs))"

definition sample_ok :: "entropy \<Rightarrow> bool" where
  "sample_ok r \<longleftrightarrow> (\<forall>k. 0 \<le> sample_unit r k \<and> sample_unit r k < 1)"

definition hash_order_ok :: "entropy \<Rightarrow> bool" where
  "hash_order_ok r \<longleftrightarrow> (\<forall>k n. mset (hash_order r k n) = mset [0..<n])"

definition entropy_ok :: "entropy \<Rightarrow> bool" where
  "entropy_ok r \<longleftrightarrow> choose_ok r \<and> choose_multiple_ok r \<and> sample_ok r \<and> hash_order_ok r"

lemma entropy_okD:
  assumes "entropy_ok r"
  shows "choose_ok r" "choose_multiple_ok r" "sample_ok r" "hash_order_ok r"
  using assms by (simp_all add: entropy_ok_def)

lemma choose_Some_in: "choose_ok r \<Longrightarrow> choose_one r k xs = Some x \<Longrightarrow> x \<in> set xs"
  unfolding choose_ok_def by (metis option.simps(5))

lemma choose_None_iff: "choose_ok r \<Longrightarrow> choose_one r k xs = None \<longleftrightarrow> xs = []"
  unfolding choose_ok_def
  by (metis (mono_tags, lifting) empty_iff empty_set option.case_eq_if option.exhaust_sel)

lemma choose_multiple_subset:
  "choose_multiple_ok r \<Longrightarrow> set (choose_multiple r k xs n) \<subseteq> set xs"
  unfolding choose_multiple_ok_def by (metis set_mset_mono set_mset_mset)

lemma choose_multiple_length:
  "choose_multiple_ok r \<Longrightarrow> length (choose_multiple r k xs n) = min n (length xs)"
  by (simp add: choose_multiple_ok_def)

text \<open>The elements of a container in the order the source visits them.\<close>

definition hash_iter :: "entropy \<Rightarrow> nat \<Rightarrow> 'a list \<Rightarrow> 'a list" where
  "hash_iter r k xs = map (nth xs) (hash_order r k (length xs))"

lemma mset_hash_iter:
  assumes "hash_order_ok r"
  shows "mset (hash_iter r k xs) = mset xs"
proof -
  have "mset (hash_iter r k xs) = image_mset (nth xs) (mset [0..<length xs])"
    using assms unfolding hash_iter_def hash_order_ok_def by (metis mset_map)
  also have "\<dots> = mset (map (nth xs) [0..<length xs])" by (simp only: mset_map)
  also have "\<dots> = mset xs" by (simp only: map_nth)
  finally show ?thesis .
qed

lemma set_hash_iter: "hash_order_ok r \<Longrightarrow> set (hash_iter r k xs) = set xs"
  using mset_hash_iter by (metis set_mset_mset)

lemma hs_wf_hash_iter:
  assumes "hash_order_ok r"
  shows "hs_wf key (hash_iter r k xs) \<longleftrightarrow> hs_wf key xs"
proof -
  have "mset (map key (hash_iter r k xs)) = mset (map key xs)"
    using mset_hash_iter [OF assms] by (metis mset_map)
  then show ?thesis
    unfolding hs_wf_def by (rule mset_eq_imp_distinct_iff)
qed

text \<open>
  A concrete source, for evaluating the model: the first element, a prefix, a fixed sample,
  the draw's own number, and the order of the list.
\<close>

definition first_entropy :: entropy where
  "first_entropy =
     \<lparr>choose_one = (\<lambda>k xs. case xs of [] \<Rightarrow> None | x # _ \<Rightarrow> Some x),
      choose_multiple = (\<lambda>k xs n. take n xs),
      sample_unit = (\<lambda>k. 1 / 2),
      gen_u64 = (\<lambda>k. word_of_nat k),
      hash_order = (\<lambda>k n. [0..<n])\<rparr>"

lemma first_entropy_simps [simp]:
  "choose_one first_entropy k [] = None"
  "choose_one first_entropy k (x # xs) = Some x"
  "choose_multiple first_entropy k xs n = take n xs"
  "sample_unit first_entropy k = 1 / 2"
  "hash_iter first_entropy k xs = xs"
  by (simp_all add: first_entropy_def hash_iter_def map_nth)

lemma mset_take_le: "mset (take n xs) \<subseteq># mset xs"
  by (metis append_take_drop_id mset_append mset_subset_eq_add_left)

lemma first_entropy_ok: "entropy_ok first_entropy"
  by (auto simp: entropy_ok_def choose_ok_def choose_multiple_ok_def sample_ok_def hash_order_ok_def
      first_entropy_def mset_take_le split: list.splits)

subsection \<open>Compression\<close>

text \<open>
  \<open>zstd::decode_all\<close> and \<open>zstd::encode_all\<close>; the first argument of the encoder is the
  compression level.
\<close>

record zstd =
  decode_all :: "bytes \<Rightarrow> bytes option"
  encode_all :: "int \<Rightarrow> bytes \<Rightarrow> io_error + bytes"

definition zstd_roundtrips :: "zstd \<Rightarrow> bool" where
  "zstd_roundtrips z \<longleftrightarrow> (\<forall>l x y. encode_all z l x = Inr y \<longrightarrow> decode_all z y = Some x)"

text \<open>A concrete compressor, for evaluating the model: one tag byte in front.\<close>

definition tag_zstd :: zstd where
  "tag_zstd =
     \<lparr>decode_all = (\<lambda>b. case b of [] \<Rightarrow> None | t # x \<Rightarrow> if t = 40 then Some x else None),
      encode_all = (\<lambda>l x. Inr (40 # x))\<rparr>"

lemma tag_zstd_ok: "zstd_roundtrips tag_zstd"
  by (simp add: zstd_roundtrips_def tag_zstd_def)

end
