(* ===== verification/View.thy ===== *)
theory View
  imports Config Environment
begin

section \<open>HyParView: the partial views of one topic\<close>

text \<open>
  \<open>HyParView\<close> of \<open>src/src/network/episub/view.rs\<close>: the small active view over which messages
  travel, the larger passive view of backup peers, and the queue of actions for the network
  layer. One definition per method, in the order in which they call each other. Every method
  takes the wire codec \<open>w\<close> and the entropy source \<open>r\<close> it uses; the field \<open>hv_draws\<close> counts the
  random draws made so far and stands for the state of the thread's generator.
\<close>

record hyparview =
  hv_config :: config
  hv_topic :: string
  hv_local_node :: addressable_peer
  hv_active :: "addressable_peer list"
  hv_passive :: "addressable_peer list"
  hv_last_tick :: instant
  hv_last_shuffle :: instant
  hv_out_events :: "action list"
  hv_draws :: nat

text \<open>\<open>HyParView::new\<close>; reading 0 of the clock is \<open>last_tick\<close>, reading 1 \<open>last_shuffle\<close>.\<close>

definition new_view :: "clock \<Rightarrow> string \<Rightarrow> config \<Rightarrow> addressable_peer \<Rightarrow> hyparview" where
  "new_view clk topic c local =
     \<lparr>hv_config = c, hv_topic = topic, hv_local_node = local, hv_active = [], hv_passive = [],
      hv_last_tick = clk 0, hv_last_shuffle = clk 1, hv_out_events = [], hv_draws = 0\<rparr>"

definition is_active :: "hyparview \<Rightarrow> peer_id \<Rightarrow> bool" where
  "is_active s p = hs_contains peer_id (probe p) (hv_active s)"

definition overconnected :: "hyparview \<Rightarrow> bool" where
  "overconnected s \<longleftrightarrow> max_active_view_size (hv_config s) \<le> length (hv_active s)"

definition starved :: "hyparview \<Rightarrow> bool" where
  "starved s \<longleftrightarrow> length (hv_active s) < min_active_view_size (hv_config s)"

text \<open>\<open>self.out_events.push_back(..)\<close>, the notification built for it, and one random draw.\<close>

definition hv_push :: "action \<Rightarrow> hyparview \<Rightarrow> hyparview" where
  "hv_push a s = s\<lparr>hv_out_events := hv_out_events s @ [a]\<rparr>"

definition hv_notify :: "hyparview \<Rightarrow> peer_id \<Rightarrow> rpc_action \<Rightarrow> action" where
  "hv_notify s p a = NotifyHandler p (rpc_of (hv_topic s) a)"

definition hv_draw :: "hyparview \<Rightarrow> hyparview" where
  "hv_draw s = s\<lparr>hv_draws := Suc (hv_draws s)\<rparr>"

definition dial_of :: "hyparview \<Rightarrow> addressable_peer \<Rightarrow> bool \<Rightarrow> action" where
  "dial_of s p temporary =
     Dial (peer_id p) (addresses p) (max_transmit_size (hv_config s)) temporary"

subsection \<open>Moving peers in and out of the views\<close>

text \<open>
  The priority of the \<open>Neighbor\<close> message is chosen by whether the active view is empty, after
  the insertion.
\<close>

definition add_node_to_active_view ::
  "wire_codec \<Rightarrow> addressable_peer \<Rightarrow> bool \<Rightarrow> hyparview \<Rightarrow> hyparview" where
  "add_node_to_active_view w node initiator s =
     (if peer_id node = peer_id (hv_local_node s) then s
      else if hs_contains peer_id node (hv_active s) then s
      else
        let s = s\<lparr>hv_active := hs_insert peer_id node (hv_active s)\<rparr>;
            s = (if initiator then
                   hv_push (hv_notify s (peer_id node)
                     (Neighbor (into_wire w (hv_local_node s))
                       (if hv_active s = [] then priority_high else priority_low)))
                     (hv_push (dial_of s node False) s)
                 else s)
        in hv_push (GenerateEvent (PeerAdded (peer_id node))) s)"

definition add_node_to_passive_view ::
  "entropy \<Rightarrow> addressable_peer \<Rightarrow> hyparview \<Rightarrow> hyparview" where
  "add_node_to_passive_view r node s =
     (if peer_id node \<noteq> peer_id (hv_local_node s) then
        let s = s\<lparr>hv_passive := hs_insert peer_id node (hv_passive s)\<rparr>
        in if max_passive_view_size (hv_config s) < length (hv_passive s) then
             (case choose_one r (hv_draws s) (hv_passive s) of
                Some random \<Rightarrow> hv_draw (s\<lparr>hv_passive := hs_remove peer_id random (hv_passive s)\<rparr>)
              | None \<Rightarrow> hv_draw s)
           else s
      else s)"

text \<open>The peer that is moved is drawn from the passive view, as in the code.\<close>

definition free_up_active_slot :: "entropy \<Rightarrow> hyparview \<Rightarrow> hyparview" where
  "free_up_active_slot r s =
     (if overconnected s then
        (case choose_one r (hv_draws s) (hv_passive s) of
           Some random \<Rightarrow>
             let s = hv_draw s;
                 s = s\<lparr>hv_active := hs_remove peer_id random (hv_active s)\<rparr>;
                 s = hv_push (hv_notify s (peer_id random) (Disconnect True)) s;
                 s = hv_push (GenerateEvent (PeerRemoved (peer_id random))) s
             in add_node_to_passive_view r random s
         | None \<Rightarrow> hv_draw s)
      else s)"

subsection \<open>Handlers of the membership messages\<close>

definition initiate_join :: "wire_codec \<Rightarrow> addressable_peer \<Rightarrow> hyparview \<Rightarrow> hyparview" where
  "initiate_join w peer s =
     hv_push (hv_notify s (peer_id peer)
       (Join (word_of_nat (active_walk_length (hv_config s))) (into_wire w (hv_local_node s)))) s"

text \<open>The \<open>ForwardJoin\<close>s sent to the active peers other than the joining one and the sender.\<close>

definition forward_joins ::
  "wire_codec \<Rightarrow> addressable_peer \<Rightarrow> peer_id \<Rightarrow> u32 \<Rightarrow> hyparview \<Rightarrow> action list" where
  "forward_joins w peer sender ttl s =
     map (\<lambda>n. hv_notify s (peer_id n) (ForwardJoin ttl (into_wire w peer)))
       (filter (\<lambda>n. peer_id n \<noteq> peer_id peer \<and> peer_id n \<noteq> sender) (hv_active s))"

definition inject_join ::
  "wire_codec \<Rightarrow> entropy \<Rightarrow> peer_id \<Rightarrow> addressable_peer \<Rightarrow> u32 \<Rightarrow> hyparview \<Rightarrow> hyparview" where
  "inject_join w r sender peer ttl s =
     (if hs_contains peer_id peer (hv_active s) then s
      else
        let s = (if \<not> overconnected s then add_node_to_active_view w peer True s
                 else add_node_to_passive_view r peer s)
        in s\<lparr>hv_out_events := hv_out_events s @ forward_joins w peer sender ttl s\<rparr>)"

text \<open>
  The \<open>ttl\<close> is a \<open>usize\<close> here, widened from the \<open>u32\<close> of the message by the caller, so the cast
  back loses nothing.
\<close>

definition inject_forward_join ::
  "wire_codec \<Rightarrow> entropy \<Rightarrow> addressable_peer \<Rightarrow> nat \<Rightarrow> peer_id \<Rightarrow> peer_id \<Rightarrow> hyparview \<Rightarrow> hyparview" where
  "inject_forward_join w r peer ttl local_node sender s =
     (if peer_id peer = local_node then s
      else
        let s = (if ttl = 0 \<and> \<not> is_active s (peer_id peer) then free_up_active_slot r s else s);
            s = (if \<not> overconnected s then add_node_to_active_view w peer True s
                 else add_node_to_passive_view r peer s)
        in if ttl \<noteq> 0 then
             s\<lparr>hv_out_events := hv_out_events s @ forward_joins w peer sender (word_of_nat (ttl - 1)) s\<rparr>
           else s)"

definition inject_disconnect :: "entropy \<Rightarrow> peer_id \<Rightarrow> bool \<Rightarrow> hyparview \<Rightarrow> hyparview" where
  "inject_disconnect r peer alive s =
     (let s = (if alive then
                 foldl (\<lambda>s p. add_node_to_passive_view r p s) s
                   (filter (\<lambda>p. peer_id p = peer) (hv_active s))
               else s\<lparr>hv_passive := filter (\<lambda>p. peer_id p \<noteq> peer) (hv_passive s)\<rparr>)
      in if hs_contains peer_id (probe peer) (hv_active s) then
           let s = hv_push (GenerateEvent (PeerRemoved peer)) s
           in s\<lparr>hv_active := filter (\<lambda>p. peer_id p \<noteq> peer) (hv_active s)\<rparr>
         else s)"

definition inject_neighbor ::
  "wire_codec \<Rightarrow> entropy \<Rightarrow> addressable_peer \<Rightarrow> 32 word \<Rightarrow> hyparview \<Rightarrow> hyparview" where
  "inject_neighbor w r peer priority s =
     (if is_active s (peer_id peer) then s
      else if \<not> overconnected s then add_node_to_active_view w peer False s
      else if priority = priority_high then
        add_node_to_active_view w peer False (free_up_active_slot r s)
      else inject_disconnect r (peer_id peer) True s)"

subsection \<open>Shuffles\<close>

definition send_shuffle_reply ::
  "wire_codec \<Rightarrow> addressable_peer \<Rightarrow> addressable_peer list \<Rightarrow> hyparview \<Rightarrow> hyparview" where
  "send_shuffle_reply w origin nodes s =
     (let s = (if \<not> is_active s (peer_id origin) then hv_push (dial_of s origin True) s else s)
      in hv_push (hv_notify s (peer_id origin) (ShuffleReply (map (into_wire w) nodes))) s)"

definition send_shuffle :: "wire_codec \<Rightarrow> entropy \<Rightarrow> peer_id \<Rightarrow> hyparview \<Rightarrow> hyparview" where
  "send_shuffle w r peer s =
     (let nodes = choose_multiple r (hv_draws s) (hv_active s @ hv_passive s)
                    (shuffle_max_size (hv_config s));
          s = hv_draw s
      in hv_push (hv_notify s peer
           (Shuffle (word_of_nat (active_walk_length (hv_config s)))
             (into_wire w (hv_local_node s)) (map (into_wire w) nodes))) s)"

text \<open>The peers known here and not to the origin of a shuffle, from which the reply is drawn.\<close>

definition shuffle_candidates :: "addressable_peer list \<Rightarrow> hyparview \<Rightarrow> addressable_peer list" where
  "shuffle_candidates deduped s =
     hs_difference peer_id
       (hs_collect peer_id (hs_union peer_id (hv_active s) (hv_passive s))) deduped"

definition inject_shuffle ::
  "wire_codec \<Rightarrow> entropy \<Rightarrow> peer_id \<Rightarrow> u32 \<Rightarrow> addressable_peer list \<Rightarrow> addressable_peer
     \<Rightarrow> hyparview \<Rightarrow> hyparview" where
  "inject_shuffle w r from_peer ttl nodes origin s =
     (let deduped = hs_collect peer_id nodes;
          reply = choose_multiple r (hv_draws s) (shuffle_candidates deduped s)
                    (shuffle_max_size (hv_config s));
          s = send_shuffle_reply w origin reply (hv_draw s);
          deduped = filter (\<lambda>n. \<not> hs_contains peer_id n (hv_active s)
                              \<and> \<not> hs_contains peer_id n (hv_passive s)
                              \<and> peer_id n \<noteq> peer_id (hv_local_node s)) deduped;
          s = foldl (\<lambda>s p. add_node_to_passive_view r p s) s (hash_iter r (hv_draws s) deduped)
      in if ttl \<noteq> 0 then
           (case choose_one r (hv_draws s)
                   (filter (\<lambda>n. peer_id n \<noteq> from_peer \<and> peer_id origin \<noteq> peer_id n) (hv_active s)) of
              Some random \<Rightarrow>
                hv_push (hv_notify s (peer_id random)
                  (Shuffle (ttl - 1) (into_wire w origin) (map (into_wire w) nodes))) (hv_draw s)
            | None \<Rightarrow> add_node_to_active_view w origin True (hv_draw s))
         else s)"

text \<open>
  \<open>while self.passive.len() > max { self.passive.drain().next(); }\<close>: \<open>HashSet::drain\<close> empties the
  set, also when the iterator it returns is dropped after one element.
\<close>

function drain_excess :: "nat \<Rightarrow> 'a list \<Rightarrow> 'a list" where
  "drain_excess limit xs = (if limit < length xs then drain_excess limit [] else xs)"
  by pat_completeness auto
termination by (relation "measure (\<lambda>(limit, xs). length xs)") auto

declare drain_excess.simps [simp del]

definition inject_shuffle_reply :: "wire_codec \<Rightarrow> wire_peer list \<Rightarrow> hyparview \<Rightarrow> hyparview" where
  "inject_shuffle_reply w params s =
     (let nodes = hs_collect peer_id (ok_peers w params);
          s = s\<lparr>hv_passive := hs_collect peer_id (hs_union peer_id (hv_passive s) nodes)\<rparr>
      in s\<lparr>hv_passive := drain_excess (max_passive_view_size (hv_config s)) (hv_passive s)\<rparr>)"

subsection \<open>Periodic work\<close>

definition maybe_move_random_passive_to_active ::
  "wire_codec \<Rightarrow> entropy \<Rightarrow> hyparview \<Rightarrow> hyparview" where
  "maybe_move_random_passive_to_active w r s =
     (if starved s then
        (case choose_one r (hv_draws s) (hv_passive s) of
           Some random \<Rightarrow>
             add_node_to_active_view w random True
               (hv_draw (s\<lparr>hv_passive := hs_remove peer_id random (hv_passive s)\<rparr>))
         | None \<Rightarrow> hv_draw s)
      else s)"

text \<open>The two timers of \<open>poll\<close>, each with the clock readings it takes.\<close>

definition shuffle_timer :: "wire_codec \<Rightarrow> entropy \<Rightarrow> clock \<Rightarrow> hyparview \<Rightarrow> hyparview" where
  "shuffle_timer w r clk s =
     (if int (shuffle_interval (hv_config s)) < duration_since (clk 0) (hv_last_shuffle s) then
        let sample = sample_unit r (hv_draws s);
            s = hv_draw s;
            s = (if 1 - sample \<le> shuffle_probability (hv_config s) then
                   (case choose_one r (hv_draws s) (hv_active s) of
                      Some random \<Rightarrow> send_shuffle w r (peer_id random) (hv_draw s)
                    | None \<Rightarrow> hv_draw s)
                 else s)
        in s\<lparr>hv_last_shuffle := clk 1\<rparr>
      else s)"

definition tick_timer :: "wire_codec \<Rightarrow> entropy \<Rightarrow> clock \<Rightarrow> hyparview \<Rightarrow> hyparview" where
  "tick_timer w r clk s =
     (if int (tick_frequency (hv_config s)) < duration_since (clk 2) (hv_last_tick s) then
        (maybe_move_random_passive_to_active w r s)\<lparr>hv_last_tick := clk 3\<rparr>
      else s)"

definition hv_pop :: "hyparview \<Rightarrow> action poll \<times> hyparview" where
  "hv_pop s = (case hv_out_events s of
                 [] \<Rightarrow> (Pending, s)
               | e # es \<Rightarrow> (Ready e, s\<lparr>hv_out_events := es\<rparr>))"

definition poll_view ::
  "wire_codec \<Rightarrow> entropy \<Rightarrow> clock \<Rightarrow> hyparview \<Rightarrow> action poll \<times> hyparview" where
  "poll_view w r clk s = hv_pop (tick_timer w r clk (shuffle_timer w r clk s))"

end
