(* ===== verification/View_Invariants.thy ===== *)
theory View_Invariants
  imports View
begin

section \<open>Invariants of the partial views\<close>

text \<open>
  What every method of \<open>HyParView\<close> keeps true, and what it tells the rest of the node. The
  lemmas about the two insertion routines carry the proofs of the handlers built on them.
\<close>

lemmas view_defs = hv_push_def hv_notify_def hv_draw_def dial_of_def

subsection \<open>No method changes the identity of the view\<close>

definition same_view :: "hyparview \<Rightarrow> hyparview \<Rightarrow> bool" where
  "same_view s t \<longleftrightarrow>
     hv_config t = hv_config s \<and> hv_topic t = hv_topic s \<and> hv_local_node t = hv_local_node s"

lemma same_view_refl [simp]: "same_view s s"
  by (simp add: same_view_def)

lemma same_view_trans: "same_view s t \<Longrightarrow> same_view t u \<Longrightarrow> same_view s u"
  by (simp add: same_view_def)

lemma hv_push_simps [simp]:
  "hv_config (hv_push a s) = hv_config s"
  "hv_topic (hv_push a s) = hv_topic s"
  "hv_local_node (hv_push a s) = hv_local_node s"
  "hv_active (hv_push a s) = hv_active s"
  "hv_passive (hv_push a s) = hv_passive s"
  "hv_last_tick (hv_push a s) = hv_last_tick s"
  "hv_last_shuffle (hv_push a s) = hv_last_shuffle s"
  "hv_out_events (hv_push a s) = hv_out_events s @ [a]"
  "hv_draws (hv_push a s) = hv_draws s"
  by (simp_all add: hv_push_def)

lemma hv_draw_simps [simp]:
  "hv_config (hv_draw s) = hv_config s"
  "hv_topic (hv_draw s) = hv_topic s"
  "hv_local_node (hv_draw s) = hv_local_node s"
  "hv_active (hv_draw s) = hv_active s"
  "hv_passive (hv_draw s) = hv_passive s"
  "hv_last_tick (hv_draw s) = hv_last_tick s"
  "hv_last_shuffle (hv_draw s) = hv_last_shuffle s"
  "hv_out_events (hv_draw s) = hv_out_events s"
  by (simp_all add: hv_draw_def)

lemma is_active_iff: "is_active s p \<longleftrightarrow> p \<in> hs_keys peer_id (hv_active s)"
  by (simp add: is_active_def hs_contains_iff)

subsection \<open>The insertion routines, field by field\<close>

lemma add_active_frame [simp]:
  "hv_config (add_node_to_active_view w n i s) = hv_config s"
  "hv_topic (add_node_to_active_view w n i s) = hv_topic s"
  "hv_local_node (add_node_to_active_view w n i s) = hv_local_node s"
  "hv_passive (add_node_to_active_view w n i s) = hv_passive s"
  "hv_last_tick (add_node_to_active_view w n i s) = hv_last_tick s"
  "hv_last_shuffle (add_node_to_active_view w n i s) = hv_last_shuffle s"
  by (simp_all add: add_node_to_active_view_def Let_def)

lemma add_active_active [simp]:
  "hv_active (add_node_to_active_view w n i s) =
     (if peer_id n = peer_id (hv_local_node s) then hv_active s
      else hs_insert peer_id n (hv_active s))"
  by (simp add: add_node_to_active_view_def Let_def hs_insert_def)

text \<open>What is queued when a peer is activated: a dial and a \<open>Neighbor\<close>, then the event.\<close>

definition activation_events ::
  "wire_codec \<Rightarrow> hyparview \<Rightarrow> addressable_peer \<Rightarrow> bool \<Rightarrow> action list" where
  "activation_events w s n initiator =
     (if initiator then
        [dial_of s n False,
         hv_notify s (peer_id n) (Neighbor (into_wire w (hv_local_node s)) priority_low)]
      else []) @ [GenerateEvent (PeerAdded (peer_id n))]"

lemma add_active_events [simp]:
  "hv_out_events (add_node_to_active_view w n i s) =
     hv_out_events s @
     (if peer_id n = peer_id (hv_local_node s) \<or> hs_contains peer_id n (hv_active s) then []
      else activation_events w s n i)"
  by (auto simp: add_node_to_active_view_def Let_def activation_events_def hs_insert_def
      hv_notify_def dial_of_def)

lemma add_passive_frame [simp]:
  "hv_config (add_node_to_passive_view r n s) = hv_config s"
  "hv_topic (add_node_to_passive_view r n s) = hv_topic s"
  "hv_local_node (add_node_to_passive_view r n s) = hv_local_node s"
  "hv_active (add_node_to_passive_view r n s) = hv_active s"
  "hv_out_events (add_node_to_passive_view r n s) = hv_out_events s"
  "hv_last_tick (add_node_to_passive_view r n s) = hv_last_tick s"
  "hv_last_shuffle (add_node_to_passive_view r n s) = hv_last_shuffle s"
  by (simp_all add: add_node_to_passive_view_def Let_def split: option.split)

lemma add_passive_keys_subset:
  "hs_keys peer_id (hv_passive (add_node_to_passive_view r n s))
     \<subseteq> insert (peer_id n) (hs_keys peer_id (hv_passive s))"
  by (auto simp: add_node_to_passive_view_def Let_def split: option.split)

lemma add_passive_wf [simp]:
  "hs_wf peer_id (hv_passive s) \<Longrightarrow> hs_wf peer_id (hv_passive (add_node_to_passive_view r n s))"
  by (auto simp: add_node_to_passive_view_def Let_def split: option.split)

text \<open>With room left, or for a peer already there, nothing is evicted.\<close>

lemma add_passive_room:
  assumes "length (hs_insert peer_id n (hv_passive s)) \<le> max_passive_view_size (hv_config s)"
  shows "hv_passive (add_node_to_passive_view r n s) =
     (if peer_id n = peer_id (hv_local_node s) then hv_passive s
      else hs_insert peer_id n (hv_passive s))"
  using assms by (simp add: add_node_to_passive_view_def Let_def)

lemma add_passive_length:
  assumes "choose_ok r" and "hs_wf peer_id (hv_passive s)"
    and "length (hv_passive s) \<le> max_passive_view_size (hv_config s)"
  shows "length (hv_passive (add_node_to_passive_view r n s)) \<le> max_passive_view_size (hv_config s)"
proof -
  let ?xs = "hs_insert peer_id n (hv_passive s)"
  have le: "length ?xs \<le> Suc (max_passive_view_size (hv_config s))"
    using assms(3) by (simp add: hs_insert_def)
  have wf: "distinct (map peer_id ?xs)"
    using assms(2) by (simp add: hs_wf_def [symmetric])
  show ?thesis
  proof (cases "choose_one r (hv_draws s) ?xs")
    case None
    then have "?xs = []" using assms(1) by (simp add: choose_None_iff)
    with None show ?thesis
      using assms(3) by (simp add: add_node_to_passive_view_def Let_def)
  next
    case (Some x)
    then have "x \<in> set ?xs" using assms(1) by (rule choose_Some_in [rotated])
    with wf have "Suc (length (hs_remove peer_id x ?xs)) = length ?xs"
      unfolding hs_remove_def by (rule length_filter_remove1_key)
    with Some le assms(3) show ?thesis
      by (simp add: add_node_to_passive_view_def Let_def)
  qed
qed

subsection \<open>Frames of the composed operations\<close>

lemma add_passives_frame [simp]:
  "hv_config (foldl (\<lambda>s p. add_node_to_passive_view r p s) s ps) = hv_config s"
  "hv_topic (foldl (\<lambda>s p. add_node_to_passive_view r p s) s ps) = hv_topic s"
  "hv_local_node (foldl (\<lambda>s p. add_node_to_passive_view r p s) s ps) = hv_local_node s"
  "hv_active (foldl (\<lambda>s p. add_node_to_passive_view r p s) s ps) = hv_active s"
  "hv_out_events (foldl (\<lambda>s p. add_node_to_passive_view r p s) s ps) = hv_out_events s"
  by (induction ps arbitrary: s) simp_all

lemma free_up_frame [simp]:
  "hv_config (free_up_active_slot r s) = hv_config s"
  "hv_topic (free_up_active_slot r s) = hv_topic s"
  "hv_local_node (free_up_active_slot r s) = hv_local_node s"
  by (auto simp: free_up_active_slot_def Let_def split: option.split)

lemma disconnect_frame [simp]:
  "hv_config (inject_disconnect r p alive s) = hv_config s"
  "hv_topic (inject_disconnect r p alive s) = hv_topic s"
  "hv_local_node (inject_disconnect r p alive s) = hv_local_node s"
  by (simp_all add: inject_disconnect_def Let_def)

subsection \<open>The structural invariant\<close>

text \<open>
  Both views hold each peer once, the local node is not among its own active peers, and the
  passive view respects its bound. (The active view has a bound too, but not an unconditional
  one: see below.)
\<close>

definition view_inv :: "hyparview \<Rightarrow> bool" where
  "view_inv s \<longleftrightarrow>
     hs_wf peer_id (hv_active s) \<and> hs_wf peer_id (hv_passive s) \<and>
     peer_id (hv_local_node s) \<notin> hs_keys peer_id (hv_active s) \<and>
     length (hv_passive s) \<le> max_passive_view_size (hv_config s)"

lemma view_invI:
  assumes "hs_wf peer_id (hv_active s)" and "hs_wf peer_id (hv_passive s)"
    and "peer_id (hv_local_node s) \<notin> hs_keys peer_id (hv_active s)"
    and "length (hv_passive s) \<le> max_passive_view_size (hv_config s)"
  shows "view_inv s"
  using assms by (simp add: view_inv_def)

lemma view_inv_cong [simp]:
  "view_inv (hv_push a s) = view_inv s"
  "view_inv (hv_draw s) = view_inv s"
  "view_inv (s\<lparr>hv_out_events := es\<rparr>) = view_inv s"
  "view_inv (s\<lparr>hv_last_tick := t\<rparr>) = view_inv s"
  "view_inv (s\<lparr>hv_last_shuffle := t\<rparr>) = view_inv s"
  by (simp_all add: view_inv_def)

lemma view_inv_new [simp]: "view_inv (new_view clk topic c local)"
  by (simp add: view_inv_def new_view_def)

lemma view_inv_shrink_active: "view_inv s \<Longrightarrow> view_inv (s\<lparr>hv_active := filter P (hv_active s)\<rparr>)"
  by (auto simp: view_inv_def hs_keys_def)

lemma view_inv_shrink_passive: "view_inv s \<Longrightarrow> view_inv (s\<lparr>hv_passive := filter P (hv_passive s)\<rparr>)"
  by (auto simp: view_inv_def intro: le_trans [OF length_filter_le])

lemma view_inv_add_active [simp]:
  "view_inv s \<Longrightarrow> view_inv (add_node_to_active_view w n i s)"
  by (auto simp: view_inv_def)

lemma view_inv_add_passive [simp]:
  "choose_ok r \<Longrightarrow> view_inv s \<Longrightarrow> view_inv (add_node_to_passive_view r n s)"
  by (simp add: view_inv_def add_passive_length)

lemma view_inv_add_passives [simp]:
  "choose_ok r \<Longrightarrow> view_inv s \<Longrightarrow> view_inv (foldl (\<lambda>s p. add_node_to_passive_view r p s) s ps)"
  by (rule foldl_preserves) simp_all

lemma view_inv_free_up [simp]:
  "choose_ok r \<Longrightarrow> view_inv s \<Longrightarrow> view_inv (free_up_active_slot r s)"
  using view_inv_shrink_active [of "hv_draw s"]
  by (auto simp: free_up_active_slot_def Let_def hs_remove_def split: option.split)

lemma view_inv_initiate_join [simp]: "view_inv s \<Longrightarrow> view_inv (initiate_join w p s)"
  by (simp add: initiate_join_def)

lemma view_inv_join [simp]:
  "choose_ok r \<Longrightarrow> view_inv s \<Longrightarrow> view_inv (inject_join w r sender p ttl s)"
  by (simp add: inject_join_def Let_def)

lemma view_inv_forward_join [simp]:
  "choose_ok r \<Longrightarrow> view_inv s \<Longrightarrow> view_inv (inject_forward_join w r p ttl l sender s)"
  by (simp add: inject_forward_join_def Let_def)

lemma view_inv_disconnect [simp]:
  "choose_ok r \<Longrightarrow> view_inv s \<Longrightarrow> view_inv (inject_disconnect r p alive s)"
  using view_inv_shrink_active [of "hv_push _ _"]
  by (auto simp: inject_disconnect_def Let_def view_inv_shrink_passive)

lemma view_inv_neighbor [simp]:
  "choose_ok r \<Longrightarrow> view_inv s \<Longrightarrow> view_inv (inject_neighbor w r p prio s)"
  by (simp add: inject_neighbor_def)

lemma view_inv_shuffle_reply_sent [simp]:
  "view_inv s \<Longrightarrow> view_inv (send_shuffle_reply w origin nodes s)"
  by (simp add: send_shuffle_reply_def Let_def)

lemma view_inv_send_shuffle [simp]: "view_inv s \<Longrightarrow> view_inv (send_shuffle w r p s)"
  by (simp add: send_shuffle_def Let_def)

lemma view_inv_shuffle [simp]:
  "choose_ok r \<Longrightarrow> view_inv s \<Longrightarrow> view_inv (inject_shuffle w r from_peer ttl nodes origin s)"
  by (simp add: inject_shuffle_def Let_def split: option.split)

lemma drain_excess_eq: "drain_excess limit xs = (if limit < length xs then [] else xs)"
  by (simp add: drain_excess.simps [of limit xs] drain_excess.simps [of limit "[]"])

lemma view_inv_shuffle_reply [simp]: "view_inv s \<Longrightarrow> view_inv (inject_shuffle_reply w ns s)"
  by (simp add: view_inv_def inject_shuffle_reply_def Let_def drain_excess_eq)

lemma view_inv_maybe_move [simp]:
  "view_inv s \<Longrightarrow> view_inv (maybe_move_random_passive_to_active w r s)"
  using view_inv_shrink_passive [of s]
  by (auto simp: maybe_move_random_passive_to_active_def hs_remove_def split: option.split)

lemma view_inv_shuffle_timer [simp]: "view_inv s \<Longrightarrow> view_inv (shuffle_timer w r clk s)"
  by (simp add: shuffle_timer_def Let_def split: option.split)

lemma view_inv_tick_timer [simp]: "view_inv s \<Longrightarrow> view_inv (tick_timer w r clk s)"
  by (simp add: tick_timer_def)

lemma view_inv_pop: "hv_pop s = (e, t) \<Longrightarrow> view_inv s \<Longrightarrow> view_inv t"
  by (auto simp: hv_pop_def split: list.splits)

lemma view_inv_poll: "poll_view w r clk s = (e, t) \<Longrightarrow> view_inv s \<Longrightarrow> view_inv t"
  unfolding poll_view_def by (erule view_inv_pop) simp

end
