(* ===== verification/Event_Queue.thy ===== *)
theory Event_Queue
  imports Prelude
begin

section \<open>Event queues\<close>

text \<open>
  A component reports what it does by pushing events onto a queue of its state, which \<open>poll\<close> hands out
  one at a time: \<open>out_events\<close> of the view and of the tree, \<open>events\<close> of the message bus. The locale states
  what the parts that poll rely on, and what follows from it.
\<close>

text \<open>Polling a number of times, with the events it yields.\<close>

primrec polls :: "('s \<Rightarrow> 'e poll \<times> 's) \<Rightarrow> nat \<Rightarrow> 's \<Rightarrow> 'e list \<times> 's" where
  "polls pop 0 s = ([], s)"
| "polls pop (Suc n) s =
     (case pop s of
        (Pending, t) \<Rightarrow> polls pop n t
      | (Ready e, t) \<Rightarrow> let (es, u) = polls pop n t in (e # es, u))"

locale event_queue =
  fixes queue :: "'s \<Rightarrow> 'e list"
    and set_queue :: "'e list \<Rightarrow> 's \<Rightarrow> 's"
    and pop :: "'s \<Rightarrow> 'e poll \<times> 's"
  assumes queue_set [simp]: "queue (set_queue es s) = es"
    and set_set [simp]: "set_queue es (set_queue fs s) = set_queue es s"
    and set_same [simp]: "set_queue (queue s) s = s"
    and pop_empty: "queue s = [] \<Longrightarrow> pop s = (Pending, s)"
    and pop_cons: "queue s = e # es \<Longrightarrow> pop s = (Ready e, set_queue es s)"
begin

lemma pop_Ready: "pop s = (Ready e, t) \<longleftrightarrow> queue s = e # queue t \<and> t = set_queue (queue t) s"
proof (cases "queue s")
  case Nil
  then show ?thesis by (simp add: pop_empty)
next
  case (Cons a es)
  show ?thesis
  proof
    assume "pop s = (Ready e, t)"
    then show "queue s = e # queue t \<and> t = set_queue (queue t) s" using pop_cons [OF Cons] Cons by auto
  next
    assume "queue s = e # queue t \<and> t = set_queue (queue t) s"
    then show "pop s = (Ready e, t)" using pop_cons by metis
  qed
qed

lemma pop_Pending: "pop s = (Pending, t) \<longleftrightarrow> queue s = [] \<and> t = s"
  using pop_empty [of s] pop_cons [of s] by (cases "queue s") auto

lemma pop_frame:
  obtains es where "snd (pop s) = set_queue es s"
proof (cases "queue s")
  case Nil
  with that [of "[]"] pop_empty [OF Nil] set_same [of s] show ?thesis by simp
next
  case (Cons e es)
  with that [of es] pop_cons [OF Cons] show ?thesis by simp
qed

text \<open>Nothing is lost or reordered.\<close>

lemma polls_fifo: "polls pop n s = (take n (queue s), set_queue (drop n (queue s)) s)"
proof (induction n arbitrary: s)
  case (Suc n)
  show ?case
  proof (cases "queue s")
    case Nil
    with Suc [of s] show ?thesis by (simp add: pop_empty)
  next
    case (Cons e es)
    with Suc [of "set_queue es s"] show ?thesis by (simp add: pop_cons)
  qed
qed simp

lemma polls_drain: "length (queue s) \<le> n \<Longrightarrow> polls pop n s = (queue s, set_queue [] s)"
  by (simp add: polls_fifo)

end

end
