(* ===== verification/Membership.thy ===== *)
theory Membership
  imports Wire Event_Queue
begin

section \<open>The peer sampling interface\<close>

text \<open>
  HyParView tells the rest of the node which peers are active only through the events it
  queues: the broadcast tree of a topic sees \<open>PeerAdded\<close> and \<open>PeerRemoved\<close> when they leave the
  queue, one poll at a time. \<open>replay\<close> applies queued events to a set of peers, and the locale
  states the contract between the two: every operation queues exactly the membership changes it
  makes, in order.
\<close>

fun member_effect :: "action \<Rightarrow> peer_id set \<Rightarrow> peer_id set" where
  "member_effect (GenerateEvent (PeerAdded p)) A = insert p A"
| "member_effect (GenerateEvent (PeerRemoved p)) A = A - {p}"
| "member_effect _ A = A"

definition replay :: "action list \<Rightarrow> peer_id set \<Rightarrow> peer_id set" where
  "replay es A = fold member_effect es A"

lemma replay_simps [simp]:
  "replay [] A = A"
  "replay (e # es) A = replay es (member_effect e A)"
  "replay (es @ fs) A = replay fs (replay es A)"
  by (simp_all add: replay_def)

lemma member_effect_mono: "A \<subseteq> B \<Longrightarrow> member_effect e A \<subseteq> member_effect e B"
  by (induction e A rule: member_effect.induct) auto

lemma replay_mono: "A \<subseteq> B \<Longrightarrow> replay es A \<subseteq> replay es B"
  by (induction es arbitrary: A B) (simp_all add: member_effect_mono)

lemma member_effect_notify [simp]:
  "member_effect (NotifyHandler p m) A = A"
  "member_effect (Dial p as n t) A = A"
  "member_effect (CloseConnection p c) A = A"
  by simp_all

lemma replay_notifies [simp]: "replay (map (\<lambda>x. NotifyHandler (f x) (g x)) xs) A = A"
  by (induction xs) simp_all

locale peer_sampling = event_queue queue set_queue pop
  for queue :: "'s \<Rightarrow> action list" and set_queue :: "action list \<Rightarrow> 's \<Rightarrow> 's"
    and pop :: "'s \<Rightarrow> action poll \<times> 's" +
  fixes members :: "'s \<Rightarrow> peer_id set"
    and op_step :: "'o \<Rightarrow> 's \<Rightarrow> 's"
  assumes step_announces:
    "\<exists>es. queue (op_step f s) = queue s @ es \<and> members (op_step f s) = replay es (members s)"
    and members_queue [simp]: "members (set_queue es s) = members s"
begin

text \<open>
  A subscriber that holds the peers \<open>A\<close> is \<^emph>\<open>in step\<close> when the events still queued take \<open>A\<close> to
  the members. Being in step (exactly, or up to extra peers the subscriber learned elsewhere)
  survives every operation, and survives delivering the first event.
\<close>

lemma in_step_op:
  assumes "members s = replay (queue s) A"
  shows "members (op_step f s) = replay (queue (op_step f s)) A"
  using step_announces [of f s] assms by auto

lemma covered_op:
  assumes "members s \<subseteq> replay (queue s) A"
  shows "members (op_step f s) \<subseteq> replay (queue (op_step f s)) A"
proof -
  from step_announces [of f s] obtain es where
    "queue (op_step f s) = queue s @ es" and "members (op_step f s) = replay es (members s)"
    by blast
  with replay_mono [OF assms] show ?thesis by simp
qed

lemma covered_ops:
  assumes "members s \<subseteq> replay (queue s) A"
  shows "members (foldl (\<lambda>s f. op_step f s) s fs) \<subseteq> replay (queue (foldl (\<lambda>s f. op_step f s) s fs)) A"
  using assms by (induction fs arbitrary: s) (simp_all add: covered_op)

lemma covered_pop:
  assumes "pop s = (Ready e, t)" and "members s \<subseteq> replay (queue s) A"
  shows "members t \<subseteq> replay (queue t) (member_effect e A)"
proof -
  from assms(1) have "queue s = e # queue t" and t: "t = set_queue (queue t) s" by (simp_all add: pop_Ready)
  moreover have "members t = members s" by (subst t) simp
  ultimately show ?thesis using assms(2) by simp
qed

lemma covered_drained: "members s \<subseteq> replay (queue s) A \<Longrightarrow> queue s = [] \<Longrightarrow> members s \<subseteq> A"
  by simp

text \<open>Once enough polls have delivered the queue, the subscriber holds every member.\<close>

lemma covered_polls:
  assumes "members s \<subseteq> replay (queue s) A" and "length (queue s) \<le> n"
  shows "members (snd (polls pop n s)) \<subseteq> replay (fst (polls pop n s)) A"
  using assms by (simp add: polls_drain)

end

end
