(* ===== verification/View_Contract.thy ===== *)
theory View_Contract
  imports View_Invariants Membership
begin

section \<open>HyParView as a peer sampling service\<close>

text \<open>
  The public methods of \<open>HyParView\<close> as one datatype of operations, so that a statement about
  \<open>every method\<close> is a statement about \<open>apply_view_op\<close>, and the proof that the view satisfies
  the contract of \<open>Membership\<close>. \<open>Timers\<close> is the periodic part of \<open>poll\<close>.
\<close>

datatype view_op =
    Op_Initiate_Join addressable_peer
  | Op_Join peer_id addressable_peer u32
  | Op_Forward_Join addressable_peer nat peer_id peer_id
  | Op_Neighbor addressable_peer "32 word"
  | Op_Disconnect peer_id bool
  | Op_Shuffle peer_id u32 "addressable_peer list" addressable_peer
  | Op_Shuffle_Reply "wire_peer list"
  | Op_Timers clock

fun apply_view_op :: "wire_codec \<Rightarrow> entropy \<Rightarrow> view_op \<Rightarrow> hyparview \<Rightarrow> hyparview" where
  "apply_view_op w r (Op_Initiate_Join p) s = initiate_join w p s"
| "apply_view_op w r (Op_Join sender p ttl) s = inject_join w r sender p ttl s"
| "apply_view_op w r (Op_Forward_Join p ttl l sender) s = inject_forward_join w r p ttl l sender s"
| "apply_view_op w r (Op_Neighbor p prio) s = inject_neighbor w r p prio s"
| "apply_view_op w r (Op_Disconnect p alive) s = inject_disconnect r p alive s"
| "apply_view_op w r (Op_Shuffle from_peer ttl nodes origin) s =
     inject_shuffle w r from_peer ttl nodes origin s"
| "apply_view_op w r (Op_Shuffle_Reply ns) s = inject_shuffle_reply w ns s"
| "apply_view_op w r (Op_Timers clk) s = tick_timer w r clk (shuffle_timer w r clk s)"

lemma view_inv_apply: "choose_ok r \<Longrightarrow> view_inv s \<Longrightarrow> view_inv (apply_view_op w r f s)"
  by (cases f) simp_all

subsection \<open>Every method announces the changes it makes\<close>

text \<open>
  The messages of the membership protocol as a view of node \<open>n\<close> sends them: the peers in them are encoded
  peers, a \<open>Join\<close> and a \<open>Neighbor\<close> name the node itself, a \<open>Neighbor\<close> is of low priority, a
  \<open>Disconnect\<close> is alive, and nothing belongs to the broadcast tree.
\<close>

definition encoded_peer :: "wire_codec \<Rightarrow> wire_peer \<Rightarrow> bool" where
  "encoded_peer w v \<longleftrightarrow> (\<exists>p. v = into_wire w p)"

lemma encoded_into_wire [simp]:
  "encoded_peer w (into_wire w p)" "list_all (encoded_peer w) (map (into_wire w) ps)"
  by (auto simp: encoded_peer_def list_all_iff)

fun view_rpc :: "wire_codec \<Rightarrow> addressable_peer \<Rightarrow> rpc_action \<Rightarrow> bool" where
  "view_rpc w n (Join _ v) = (v = into_wire w n)"
| "view_rpc w n (ForwardJoin _ v) = encoded_peer w v"
| "view_rpc w n (Neighbor v prio) = (v = into_wire w n \<and> prio = priority_low)"
| "view_rpc w n (Shuffle _ v vs) = (encoded_peer w v \<and> list_all (encoded_peer w) vs)"
| "view_rpc w n (ShuffleReply vs) = list_all (encoded_peer w) vs"
| "view_rpc w n (Disconnect alive) = alive"
| "view_rpc w n _ = False"

fun view_action :: "wire_codec \<Rightarrow> addressable_peer \<Rightarrow> string \<Rightarrow> action \<Rightarrow> bool" where
  "view_action w n t (NotifyHandler p m) =
     (rpc_topic m = t \<and> (case rpc_action m of None \<Rightarrow> False | Some a \<Rightarrow> view_rpc w n a))"
| "view_action w n t (GenerateEvent (PeerAdded p)) = True"
| "view_action w n t (GenerateEvent (PeerRemoved p)) = True"
| "view_action w n t (Dial p as k temporary) = True"
| "view_action w n t _ = False"

definition announces :: "wire_codec \<Rightarrow> hyparview \<Rightarrow> hyparview \<Rightarrow> bool" where
  "announces w s t \<longleftrightarrow>
     (\<exists>es. hv_out_events t = hv_out_events s @ es \<and> list_all (view_action w (hv_local_node s) (hv_topic s)) es \<and>
           hs_keys peer_id (hv_active t) = replay es (hs_keys peer_id (hv_active s))) \<and>
     hv_topic t = hv_topic s \<and> hv_local_node t = hv_local_node s"

lemma announcesI:
  "\<lbrakk>hv_out_events t = hv_out_events s @ es; list_all (view_action w (hv_local_node s) (hv_topic s)) es;
    hs_keys peer_id (hv_active t) = replay es (hs_keys peer_id (hv_active s));
    hv_topic t = hv_topic s; hv_local_node t = hv_local_node s\<rbrakk> \<Longrightarrow> announces w s t"
  by (auto simp: announces_def)

lemma announces_same:
  "\<lbrakk>hv_out_events t = hv_out_events s; hv_active t = hv_active s; hv_topic t = hv_topic s;
    hv_local_node t = hv_local_node s\<rbrakk>
   \<Longrightarrow> announces w s t"
  by (rule announcesI [where es = "[]"]) simp_all

lemma announces_refl [simp]: "announces w s s"
  by (rule announces_same) simp_all

lemma announces_trans [trans]: "announces w s t \<Longrightarrow> announces w t u \<Longrightarrow> announces w s u"
  by (fastforce simp: announces_def)

lemma announces_push:
  "\<lbrakk>announces w s t; view_action w (hv_local_node s) (hv_topic s) a; \<And>A. member_effect a A = A\<rbrakk>
   \<Longrightarrow> announces w s (hv_push a t)"
  by (fastforce simp: announces_def)

lemma announces_queue:
  "\<lbrakk>announces w s t; hv_out_events u = hv_out_events t @ map (\<lambda>x. NotifyHandler (f x) (g x)) xs;
    hv_active u = hv_active t; hv_topic u = hv_topic t; hv_local_node u = hv_local_node t;
    list_all (\<lambda>x. view_action w (hv_local_node t) (hv_topic t) (NotifyHandler (f x) (g x))) xs\<rbrakk> \<Longrightarrow> announces w s u"
  by (fastforce simp: announces_def list_all_iff)

lemma announces_fields [simp]:
  "announces w s (hv_draw t) = announces w s t"
  "announces w s (t\<lparr>hv_passive := ps\<rparr>) = announces w s t"
  "announces w s (t\<lparr>hv_last_tick := x\<rparr>) = announces w s t"
  "announces w s (t\<lparr>hv_last_shuffle := x\<rparr>) = announces w s t"
  by (simp_all add: announces_def)

lemma replay_activation [simp]:
  "replay (activation_events w s n i) A = insert (peer_id n) A"
  by (simp add: activation_events_def dial_of_def hv_notify_def)

lemma view_action_activation [simp]:
  "list_all (view_action w (hv_local_node s) (hv_topic s)) (activation_events w s n i)"
  by (simp add: activation_events_def dial_of_def hv_notify_def)

lemma announces_add_active:
  "announces w s t \<Longrightarrow> announces w s (add_node_to_active_view w n i t)"
proof (erule announces_trans)
  show "announces w t (add_node_to_active_view w n i t)"
    by (rule announcesI [where es =
          "if peer_id n = peer_id (hv_local_node t) \<or> hs_contains peer_id n (hv_active t) then []
           else activation_events w t n i"])
      (auto simp: hs_contains_iff)
qed

lemma announces_add_passive:
  "announces w s t \<Longrightarrow> announces w s (add_node_to_passive_view r n t)"
  by (erule announces_trans) (simp add: announces_same)

lemma announces_add_passives:
  "announces w s t \<Longrightarrow> announces w s (foldl (\<lambda>s p. add_node_to_passive_view r p s) t ps)"
  by (rule foldl_preserves) (simp_all add: announces_add_passive)

lemma announces_free_up: "announces w s t \<Longrightarrow> announces w s (free_up_active_slot r t)"
proof (erule announces_trans, goal_cases)
  case 1
  show ?case
    by (auto simp: free_up_active_slot_def Let_def hv_notify_def intro!: announcesI
        split: option.split)
qed

lemma forward_joins_queue:
  "forward_joins w p sender ttl s =
     map (\<lambda>n. NotifyHandler (peer_id n) (rpc_of (hv_topic s) (ForwardJoin ttl (into_wire w p))))
       (filter (\<lambda>n. peer_id n \<noteq> peer_id p \<and> peer_id n \<noteq> sender) (hv_active s))"
  by (simp add: forward_joins_def hv_notify_def)

lemma announces_forward_joins:
  "announces w s t \<Longrightarrow>
   announces w s (t\<lparr>hv_out_events := hv_out_events t @ forward_joins w p sender ttl t\<rparr>)"
  by (erule announces_queue [where f = peer_id and xs = "filter _ (hv_active t)"
        and g = "\<lambda>_. rpc_of (hv_topic t) (ForwardJoin ttl (into_wire w p))"])
    (simp_all add: forward_joins_queue list_all_iff)

lemma announces_join: "announces w s (inject_join w r sender p ttl s)"
  by (simp add: inject_join_def Let_def announces_forward_joins announces_add_active
      announces_add_passive)

lemma announces_forward_join: "announces w s (inject_forward_join w r p ttl l sender s)"
  by (simp add: inject_forward_join_def Let_def announces_forward_joins announces_add_active
      announces_add_passive announces_free_up)

lemma announces_disconnect: "announces w s (inject_disconnect r p alive s)"
proof -
  let ?t = "if alive then foldl (\<lambda>s p. add_node_to_passive_view r p s) s
                (filter (\<lambda>q. peer_id q = p) (hv_active s))
            else s\<lparr>hv_passive := filter (\<lambda>q. peer_id q \<noteq> p) (hv_passive s)\<rparr>"
  have "announces w s ?t" by (simp add: announces_add_passives)
  also have "announces w ?t (inject_disconnect r p alive s)"
    unfolding inject_disconnect_def Let_def
    by (auto simp: hs_keys_def intro!: announcesI [where es = "[GenerateEvent (PeerRemoved p)]"])
  finally show ?thesis .
qed

lemma announces_neighbor: "announces w s (inject_neighbor w r p prio s)"
  by (simp add: inject_neighbor_def announces_add_active announces_free_up announces_disconnect)

lemma announces_notify:
  "announces w s t \<Longrightarrow> hv_topic u = hv_topic s \<Longrightarrow> view_rpc w (hv_local_node s) m \<Longrightarrow> announces w s (hv_push (hv_notify u p m) t)"
  by (rule announces_push) (simp_all add: hv_notify_def)

lemma announces_dial: "announces w s t \<Longrightarrow> announces w s (hv_push (dial_of u p b) t)"
  by (rule announces_push) (simp_all add: dial_of_def)

lemmas announces_intros =
  announces_notify announces_dial announces_add_active announces_add_passives

lemma announces_shuffle: "announces w s (inject_shuffle w r from_peer ttl nodes origin s)"
  by (simp add: inject_shuffle_def send_shuffle_reply_def Let_def announces_intros
      split: option.split)

lemma announces_shuffle_reply: "announces w s (inject_shuffle_reply w ns s)"
  by (simp add: inject_shuffle_reply_def Let_def)

lemma announces_shuffle_timer: "announces w s (shuffle_timer w r clk s)"
  by (simp add: shuffle_timer_def send_shuffle_def Let_def announces_intros split: option.split)

lemma announces_tick_timer: "announces w s t \<Longrightarrow> announces w s (tick_timer w r clk t)"
  by (simp add: tick_timer_def maybe_move_random_passive_to_active_def announces_intros
      split: option.split)

lemma announces_apply: "announces w s (apply_view_op w r f s)"
  by (cases f)
    (simp_all add: initiate_join_def announces_intros announces_join announces_forward_join
      announces_neighbor announces_disconnect announces_shuffle announces_shuffle_reply
      announces_shuffle_timer announces_tick_timer)

lemma hv_pop_cons:
  "hv_out_events s = e # es \<Longrightarrow> hv_pop s = (Ready e, s\<lparr>hv_out_events := es\<rparr>)"
  by (simp add: hv_pop_def)

interpretation view_sampling: peer_sampling hv_out_events "\<lambda>es s. s\<lparr>hv_out_events := es\<rparr>" hv_pop
  "\<lambda>s. hs_keys peer_id (hv_active s)" "apply_view_op w r" for w r
proof unfold_locales
  fix f s
  show "\<exists>es. hv_out_events (apply_view_op w r f s) = hv_out_events s @ es \<and>
      hs_keys peer_id (hv_active (apply_view_op w r f s)) = replay es (hs_keys peer_id (hv_active s))"
    using announces_apply unfolding announces_def by blast
qed (auto simp: hv_pop_def)

end
