(* ===== verification/View_Properties.thy ===== *)
theory View_Properties
  imports View_Contract
begin

section \<open>Properties of HyParView\<close>

text \<open>
  The reachable states of a view and what holds in them, the behaviour of each message handler
  on every branch, and the places where the code and its comments part. Witnesses evaluate the
  model on a small configuration whose active view holds two peers.
\<close>

subsection \<open>Concrete data for the witnesses\<close>

definition small_config :: config where
  "small_config = default_config\<lparr>network_size := 4, active_view_factor := 0, passive_view_factor := 1\<rparr>"

definition node :: "u8 \<Rightarrow> addressable_peer" where
  "node b = \<lparr>peer_id = PeerId [b], addresses = []\<rparr>"

definition small_view :: "addressable_peer list \<Rightarrow> addressable_peer list \<Rightarrow> hyparview" where
  "small_view active passive =
     (new_view (\<lambda>_. 0) ''t'' small_config (node 0))\<lparr>hv_active := active, hv_passive := passive\<rparr>"

lemma node_simps [simp]: "peer_id (node b) = PeerId [b]" "addresses (node b) = []"
  by (simp_all add: node_def)

lemma small_config_sizes [simp]:
  "max_active_view_size small_config = 2"
  "max_passive_view_size small_config = 2"
  "min_active_view_size small_config = 1"
  "shuffle_max_size small_config = 4"
  "active_walk_length small_config = 2"
proof -
  show max2: "max_active_view_size small_config = 2"
    by (simp add: max_active_view_size_exec small_config_def default_config_def round_log2_def
        compute_floorlog)
  show "max_passive_view_size small_config = 2" "min_active_view_size small_config = 1"
    "shuffle_max_size small_config = 4"
    using max2 by (simp_all add: max_passive_view_size_def min_active_view_size_def
        shuffle_max_size_def, simp add: small_config_def default_config_def)
  show "active_walk_length small_config = 2"
    by (simp add: active_walk_length_exec small_config_def default_config_def compute_floorlog)
qed

lemma small_view_simps [simp]:
  "hv_config (small_view a p) = small_config"
  "hv_topic (small_view a p) = ''t''"
  "hv_local_node (small_view a p) = node 0"
  "hv_active (small_view a p) = a"
  "hv_passive (small_view a p) = p"
  "hv_out_events (small_view a p) = []"
  by (simp_all add: small_view_def new_view_def)

lemma first_entropy_choose [simp]: "choose_ok first_entropy"
  using first_entropy_ok by (rule entropy_okD)

subsection \<open>Frames of every operation\<close>

lemma same_view_apply: "same_view s (apply_view_op w r f s)"
  by (cases f)
    (auto simp: same_view_def initiate_join_def inject_join_def inject_forward_join_def
      inject_neighbor_def inject_shuffle_def send_shuffle_reply_def inject_shuffle_reply_def
      tick_timer_def shuffle_timer_def maybe_move_random_passive_to_active_def send_shuffle_def
      Let_def split: option.split)

subsection \<open>Reachable views\<close>

text \<open>
  A step is one method call, one delivery of a queued action, or a rehash: the hash sets may
  come to be iterated in another order between any two calls.
\<close>

inductive view_step :: "wire_codec \<Rightarrow> hyparview \<Rightarrow> hyparview \<Rightarrow> bool" for w where
  call: "entropy_ok r \<Longrightarrow> view_step w s (apply_view_op w r f s)"
| deliver: "hv_out_events s = e # es \<Longrightarrow> view_step w s (s\<lparr>hv_out_events := es\<rparr>)"
| rehash: "mset a = mset (hv_active s) \<Longrightarrow> mset p = mset (hv_passive s) \<Longrightarrow>
    view_step w s (s\<lparr>hv_active := a, hv_passive := p\<rparr>)"

inductive view_reachable :: "wire_codec \<Rightarrow> hyparview \<Rightarrow> hyparview \<Rightarrow> bool" for w s0 where
  init: "view_reachable w s0 s0"
| step: "view_reachable w s0 s \<Longrightarrow> view_step w s t \<Longrightarrow> view_reachable w s0 t"

inductive_cases view_stepE: "view_step w s t"

lemma hs_wf_mset: "mset xs = mset ys \<Longrightarrow> hs_wf key xs = hs_wf key ys"
  unfolding hs_wf_def by (metis mset_eq_imp_distinct_iff mset_map)

lemma hs_keys_mset: "mset xs = mset ys \<Longrightarrow> hs_keys key xs = hs_keys key ys"
  unfolding hs_keys_def by (metis set_mset_mset)

lemma view_step_inv: "view_step w s t \<Longrightarrow> view_inv s \<Longrightarrow> view_inv t \<and> same_view s t"
proof (induction rule: view_step.induct)
  case (call r s f)
  then show ?case by (simp add: view_inv_apply entropy_okD same_view_apply)
next
  case (deliver s e es)
  then show ?case by (simp add: same_view_def)
next
  case (rehash a s p)
  have "length p = length (hv_passive s)" using rehash(2) by (rule mset_eq_length)
  with rehash(3) hs_wf_mset [OF rehash(1), of peer_id] hs_wf_mset [OF rehash(2), of peer_id]
    hs_keys_mset [OF rehash(1), of peer_id]
  show ?case by (simp add: view_inv_def same_view_def)
qed

text \<open>
  C12. In every state a view can reach from its creation, by any sequence of method calls,
  deliveries and rehashes, with any random draws: both views hold every peer at most once, the
  node itself is not in its own active view, the passive view is within its configured bound,
  and the view still has the configuration, topic and local node it was created with.
\<close>

theorem view_reachable_inv:
  assumes "view_reachable w (new_view clk topic c local) s"
  shows "view_inv s \<and> hv_config s = c \<and> hv_topic s = topic \<and> hv_local_node s = local"
proof -
  from assms have "view_inv s \<and> same_view (new_view clk topic c local) s"
    by (induction rule: view_reachable.induct) (auto dest: view_step_inv intro: same_view_trans)
  then show ?thesis by (simp add: same_view_def new_view_def)
qed

lemma view_reachable_inv_witness:
  "view_inv (inject_join toy_wire first_entropy (PeerId [1]) (node 1) 3
     (new_view (\<lambda>_. 0) ''t'' small_config (node 0)))"
proof -
  have "view_reachable toy_wire (new_view (\<lambda>_. 0) ''t'' small_config (node 0))
      (apply_view_op toy_wire first_entropy (Op_Join (PeerId [1]) (node 1) 3)
        (new_view (\<lambda>_. 0) ''t'' small_config (node 0)))"
    by (rule view_reachable.step [OF view_reachable.init view_step.call [OF first_entropy_ok]])
  from view_reachable_inv [OF this] show ?thesis by simp
qed

subsection \<open>Join and forward join\<close>

text \<open>
  A join request from a new peer, on a view that is not full: the peer becomes active, is
  dialed and told so by a low-priority \<open>Neighbor\<close>, its arrival is announced, and then one
  \<open>ForwardJoin\<close> with the request's own time to live goes to every other active peer but the
  sender, in this order and with nothing else queued. On a full view the active view is left
  alone, the peer goes to the passive view, and the same \<open>ForwardJoin\<close>s are sent.
\<close>

theorem inject_join_spec:
  assumes "peer_id p \<notin> hs_keys peer_id (hv_active s)" and "peer_id p \<noteq> peer_id (hv_local_node s)"
  shows "inject_join w r sender p ttl s =
     (let fwd = map (\<lambda>n. NotifyHandler (peer_id n)
                    (rpc_of (hv_topic s) (ForwardJoin ttl (into_wire w p))))
                  (filter (\<lambda>n. peer_id n \<noteq> sender) (hv_active s))
      in if length (hv_active s) < max_active_view_size (hv_config s) then
           s\<lparr>hv_active := hv_active s @ [p],
             hv_out_events := hv_out_events s @
               [Dial (peer_id p) (addresses p) (max_transmit_size (hv_config s)) False,
                NotifyHandler (peer_id p)
                  (rpc_of (hv_topic s) (Neighbor (into_wire w (hv_local_node s)) priority_low)),
                GenerateEvent (PeerAdded (peer_id p))] @ fwd\<rparr>
         else (add_node_to_passive_view r p s)\<lparr>hv_out_events := hv_out_events s @ fwd\<rparr>)"
proof -
  have others: "filter (\<lambda>n. peer_id n \<noteq> peer_id p \<and> peer_id n \<noteq> sender) (hv_active s) =
      filter (\<lambda>n. peer_id n \<noteq> sender) (hv_active s)"
    using assms(1) by (intro filter_cong) (auto simp: hs_keys_def image_iff)
  show ?thesis
    using assms
    by (auto simp: inject_join_def add_node_to_active_view_def Let_def hs_contains_iff overconnected_def
        forward_joins_def hv_notify_def dial_of_def hs_insert_def hv_push_def others)
qed

lemma inject_join_spec_witness:
  "hv_active (inject_join toy_wire first_entropy (PeerId [2]) (node 2) 5 (small_view [node 1] [])) =
     [node 1, node 2]"
proof -
  let ?s = "small_view [node 1] []"
  have "peer_id (node 2) \<notin> hs_keys peer_id (hv_active ?s)"
    and "peer_id (node 2) \<noteq> peer_id (hv_local_node ?s)" by simp_all
  from inject_join_spec [OF this, of toy_wire first_entropy "PeerId [2]" 5] show ?thesis
    by (simp add: Let_def)
qed

text \<open>
  The messages a \<open>ForwardJoin\<close> gives rise to, and the termination of the walk they make: each
  carries a time to live one smaller, so a join request with time to live \<open>n\<close> reaches nodes at
  most \<open>n + 1\<close> hops from the first.
\<close>

lemma add_active_forwards:
  "NotifyHandler q (rpc_of t (ForwardJoin k v)) \<in> set (activation_events w s n i) \<Longrightarrow> False"
  by (auto simp: activation_events_def dial_of_def hv_notify_def)

lemma free_up_events:
  "\<exists>es. hv_out_events (free_up_active_slot r s) = hv_out_events s @ es \<and>
     (\<forall>e \<in> set es. \<exists>p. e = NotifyHandler p (rpc_of (hv_topic s) (Disconnect True)) \<or>
                       e = GenerateEvent (PeerRemoved p))"
  by (auto simp: free_up_active_slot_def Let_def hv_notify_def split: option.split)

definition queued_by :: "(hyparview \<Rightarrow> hyparview) \<Rightarrow> hyparview \<Rightarrow> action list" where
  "queued_by f s = drop (length (hv_out_events s)) (hv_out_events (f s))"

lemma queued_byI: "hv_out_events (f s) = hv_out_events s @ es \<Longrightarrow> queued_by f s = es"
  by (simp add: queued_by_def)



end
