(* ===== verification/View_Handlers.thy ===== *)
theory View_Handlers
  imports View_Properties
begin

section \<open>Disconnects, neighbor requests, shuffles and timers\<close>

text \<open>
  The remaining handlers of \<open>HyParView\<close>, the bound on the active view and the requests that
  break it, and the periodic work.
\<close>

subsection \<open>Disconnect\<close>

lemma add_passives_room:
  assumes "length (hv_passive s) + length ps \<le> max_passive_view_size (hv_config s)"
  shows "hs_keys peer_id (hv_passive (foldl (\<lambda>s p. add_node_to_passive_view r p s) s ps)) =
     hs_keys peer_id (hv_passive s) \<union> (hs_keys peer_id ps - {peer_id (hv_local_node s)})"
  using assms
proof (induction ps arbitrary: s)
  case (Cons p ps)
  let ?t = "add_node_to_passive_view r p s"
  have len: "length (hs_insert peer_id p (hv_passive s)) \<le> Suc (length (hv_passive s))"
    by (simp add: hs_insert_def)
  with Cons.prems have t: "hv_passive ?t = (if peer_id p = peer_id (hv_local_node s) then hv_passive s
      else hs_insert peer_id p (hv_passive s))"
    by (intro add_passive_room) simp
  with len Cons.prems have "length (hv_passive ?t) + length ps \<le> max_passive_view_size (hv_config ?t)"
    by simp
  from Cons.IH [OF this] t show ?case by auto
qed simp

text \<open>
  A disconnect (received, or reported when a connection closes or cannot be dialed) removes
  the peer from the active view and no other peer, and \<open>PeerRemoved\<close> is queued exactly when the
  peer was active. A peer reported dead is in neither view afterwards. A peer reported alive is
  kept as a backup when it was active and the passive view has room, and nothing changes when it
  was not active.
\<close>

theorem inject_disconnect_spec:
  assumes "view_inv s" and t_def: "t = inject_disconnect r p alive s"
  shows "hs_keys peer_id (hv_active t) = hs_keys peer_id (hv_active s) - {p}
    \<and> hv_out_events t = hv_out_events s @
        (if is_active s p then [GenerateEvent (PeerRemoved p)] else [])
    \<and> (\<not> alive \<longrightarrow> hs_keys peer_id (hv_passive t) = hs_keys peer_id (hv_passive s) - {p})
    \<and> (alive \<and> is_active s p \<and> length (hv_passive s) < max_passive_view_size (hv_config s) \<longrightarrow>
        hs_keys peer_id (hv_passive t) = insert p (hs_keys peer_id (hv_passive s)))
    \<and> (alive \<and> \<not> is_active s p \<longrightarrow> t = s)"
proof -
  let ?sel = "filter (\<lambda>q. peer_id q = p) (hv_active s)"
  have wf: "hs_wf peer_id (hv_active s)" and local: "peer_id (hv_local_node s) \<noteq> p \<or> \<not> is_active s p"
    using assms(1) by (auto simp: view_inv_def is_active_iff)
  have "hs_wf peer_id ?sel" using wf by simp
  then have "length ?sel = card (hs_keys peer_id ?sel)" by (rule hs_wf_length)
  moreover have keys: "hs_keys peer_id ?sel = (if is_active s p then {p} else {})"
    by (auto simp: is_active_iff hs_keys_def)
  ultimately have len: "length ?sel = (if is_active s p then 1 else 0)" by simp
  then have "\<not> is_active s p \<Longrightarrow> ?sel = []" by simp
  moreover have "alive \<Longrightarrow> is_active s p \<Longrightarrow> length (hv_passive s) < max_passive_view_size (hv_config s) \<Longrightarrow>
      hs_keys peer_id (hv_passive t) = insert p (hs_keys peer_id (hv_passive s))"
    using add_passives_room [of s ?sel r] len keys local
    by (auto simp: t_def inject_disconnect_def Let_def)
  ultimately show ?thesis
    by (auto simp: t_def inject_disconnect_def Let_def is_active_iff hs_contains_iff hs_keys_def)
qed

lemma inject_disconnect_spec_witness:
  "hs_keys peer_id (hv_passive (inject_disconnect first_entropy (PeerId [1]) True
     (small_view [node 1, node 2] []))) = {PeerId [1]}"
proof -
  let ?s = "small_view [node 1, node 2] []"
  have "view_inv ?s" by (simp add: view_inv_def hs_wf_def)
  from inject_disconnect_spec [OF this refl, of first_entropy "PeerId [1]" True] show ?thesis
    by (simp add: is_active_iff)
qed

subsection \<open>Neighbor requests\<close>

text \<open>
  Whatever a method of the view queues is one of: a dial, the announcement of an active peer
  gained or lost, and a message of the membership protocol under the view's own topic, in which
  every \<open>Neighbor\<close> is of low priority and every \<open>Disconnect\<close> says the peer is alive. In
  particular no node ever asks for a slot with high priority, although the comment on
  \<open>inject_neighbor\<close> says that a node without active peers does: the priority is computed after
  the insertion, when the active view is never empty.
\<close>

theorem view_queues_only_low_priority:
  "\<exists>es. hv_out_events (apply_view_op w r f s) = hv_out_events s @ es \<and>
        list_all (view_action w (hv_local_node s) (hv_topic s)) es"
  using announces_apply [of w s r f] by (auto simp: announces_def)

lemma no_high_neighbor: "\<not> view_action w n t (NotifyHandler p (rpc_of t (Neighbor v priority_high)))"
  by simp

subsection \<open>The bound on the active view\<close>

text \<open>
  \<open>free_up_active_slot\<close> is meant to move an active peer to the passive view. It draws the peer
  from the passive view, so on disjoint views it frees nothing.
\<close>

lemma free_up_disjoint:
  assumes "choose_ok r" and "hs_keys peer_id (hv_active s) \<inter> hs_keys peer_id (hv_passive s) = {}"
  shows "hv_active (free_up_active_slot r s) = hv_active s"
proof (cases "choose_one r (hv_draws s) (hv_passive s)")
  case None
  then show ?thesis by (simp add: free_up_active_slot_def)
next
  case (Some p)
  then have "p \<in> set (hv_passive s)" by (rule choose_Some_in [OF assms(1)])
  with assms(2) have "\<forall>q \<in> set (hv_active s). peer_id q \<noteq> peer_id p"
    by (auto simp: hs_keys_def)
  with Some show ?thesis by (simp add: free_up_active_slot_def hs_remove_def Let_def)
qed

lemma length_free_up: "length (hv_active (free_up_active_slot r s)) \<le> length (hv_active s)"
  by (auto simp: free_up_active_slot_def hs_remove_def Let_def split: option.split)

text \<open>
  A high-priority neighbor request that reaches a full view whose two views are disjoint is
  accepted without any active peer giving up its slot: the active view grows past its configured
  size by one. (The code comments on the branch as making space by moving an active peer to the
  passive view.)
\<close>

theorem high_priority_overflows_active_view:
  assumes "choose_ok r" and "overconnected s"
    and "hs_keys peer_id (hv_active s) \<inter> hs_keys peer_id (hv_passive s) = {}"
    and "\<not> is_active s (peer_id p)" and "peer_id p \<noteq> peer_id (hv_local_node s)"
  shows "hv_active (inject_neighbor w r p priority_high s) = hv_active s @ [p]
    \<and> max_active_view_size (hv_config s) < length (hv_active (inject_neighbor w r p priority_high s))"
  using assms free_up_disjoint [OF assms(1,3)]
  by (simp add: inject_neighbor_def hs_insert_def is_active_def hs_contains_def probe_def
      overconnected_def)

lemma high_priority_overflows_active_view_witness:
  "length (hv_active (inject_neighbor toy_wire first_entropy (node 4) priority_high
     (small_view [node 1, node 2] [node 3]))) = 3"
proof -
  let ?s = "small_view [node 1, node 2] [node 3]"
  have "overconnected ?s" "hs_keys peer_id (hv_active ?s) \<inter> hs_keys peer_id (hv_passive ?s) = {}"
    "\<not> is_active ?s (peer_id (node 4))" "peer_id (node 4) \<noteq> peer_id (hv_local_node ?s)"
    by (simp_all add: overconnected_def is_active_iff)
  from high_priority_overflows_active_view [OF first_entropy_choose this, of toy_wire]
  show ?thesis by simp
qed

text \<open>The size that every other operation respects.\<close>

definition within_active_bound :: "hyparview \<Rightarrow> bool" where
  "within_active_bound s \<longleftrightarrow> length (hv_active s) \<le> max (max_active_view_size (hv_config s)) 2"

lemma length_hs_insert: "length (hs_insert key x xs) \<le> Suc (length xs)"
  by (simp add: hs_insert_def)

lemma bound_add_if_room:
  assumes "within_active_bound s" and "\<not> overconnected s"
  shows "within_active_bound (add_node_to_active_view w p i s)"
  using assms length_hs_insert [of peer_id p "hv_active s"]
  by (auto simp: within_active_bound_def overconnected_def)

lemma bound_free_up: "within_active_bound s \<Longrightarrow> within_active_bound (free_up_active_slot r s)"
  using length_free_up [of r s] by (simp add: within_active_bound_def)

lemma bound_disconnect: "within_active_bound s \<Longrightarrow> within_active_bound (inject_disconnect r p a s)"
  using length_filter_le [of "\<lambda>q. peer_id q \<noteq> p" "hv_active s"]
  by (auto simp: within_active_bound_def inject_disconnect_def Let_def
      simp del: length_filter_le)

lemma bound_fields [simp]:
  "within_active_bound (hv_push a s) = within_active_bound s"
  "within_active_bound (hv_draw s) = within_active_bound s"
  "within_active_bound (s\<lparr>hv_out_events := es\<rparr>) = within_active_bound s"
  "within_active_bound (s\<lparr>hv_passive := ps\<rparr>) = within_active_bound s"
  "within_active_bound (s\<lparr>hv_last_tick := x\<rparr>) = within_active_bound s"
  "within_active_bound (s\<lparr>hv_last_shuffle := x\<rparr>) = within_active_bound s"
  "within_active_bound (add_node_to_passive_view r p s) = within_active_bound s"
  "within_active_bound (foldl (\<lambda>s p. add_node_to_passive_view r p s) s qs) = within_active_bound s"
  by (simp_all add: within_active_bound_def)

text \<open>
  A shuffle that cannot be forwarded makes its origin active whatever the size of the view; at
  that point the active peers are among the sender and the origin, so at most two.
\<close>

lemma bound_shuffle_origin:
  assumes "hs_wf peer_id (hv_active s)"
    and "filter (\<lambda>n. peer_id n \<noteq> q \<and> peer_id origin \<noteq> peer_id n) (hv_active s) = []"
  shows "length (hs_insert peer_id origin (hv_active s)) \<le> 2"
proof -
  let ?xs = "hs_insert peer_id origin (hv_active s)"
  have "hs_keys peer_id ?xs \<subseteq> {q, peer_id origin}"
    unfolding hs_keys_simps using assms(2) by (auto simp: filter_empty_conv hs_keys_def)
  then have "card (hs_keys peer_id ?xs) \<le> card {q, peer_id origin}"
    by (rule card_mono [rotated]) simp
  also have "\<dots> \<le> 2" by (simp add: card_insert_if)
  finally show ?thesis using assms(1) hs_wf_length [of peer_id ?xs] by simp
qed

lemma bound_shuffle:
  assumes "choose_ok r" and "hs_wf peer_id (hv_active s)" and "within_active_bound s"
  shows "within_active_bound (inject_shuffle w r q ttl nodes origin s)"
proof -
  have "within_active_bound (send_shuffle_reply w origin ns t) = within_active_bound t" for ns t
    by (simp add: send_shuffle_reply_def Let_def)
  moreover have "hv_active (send_shuffle_reply w origin ns t) = hv_active t" for ns t
    by (simp add: send_shuffle_reply_def Let_def)
  moreover have "within_active_bound (add_node_to_active_view w origin True t)"
    if "within_active_bound t" "hv_active t = hv_active s"
      "filter (\<lambda>n. peer_id n \<noteq> q \<and> peer_id origin \<noteq> peer_id n) (hv_active s) = []" for t
    using bound_shuffle_origin [OF assms(2) that(3)] that(1,2)
    by (auto simp: within_active_bound_def)
  ultimately show ?thesis
    using assms(1,3)
    by (simp add: inject_shuffle_def Let_def choose_None_iff split: option.split)
qed

lemma bound_maybe_move:
  assumes "within_active_bound s"
  shows "within_active_bound (maybe_move_random_passive_to_active w r s)"
proof (cases "starved s")
  case True
  then have "length (hv_active s) < max (max_active_view_size (hv_config s)) 2"
    by (auto simp: starved_def min_active_view_size_def)
  then have "within_active_bound (add_node_to_active_view w p True t)"
    if "hv_active t = hv_active s" "hv_config t = hv_config s" for p t
    using that length_hs_insert [of peer_id p "hv_active s"] by (auto simp: within_active_bound_def)
  with assms show ?thesis
    by (simp add: maybe_move_random_passive_to_active_def split: option.split)
qed (use assms in \<open>simp add: maybe_move_random_passive_to_active_def\<close>)

lemma bound_timers: "within_active_bound s \<Longrightarrow>
  within_active_bound (tick_timer w r clk (shuffle_timer w r clk s))"
  by (simp add: tick_timer_def shuffle_timer_def send_shuffle_def bound_maybe_move Let_def
      split: option.split)

text \<open>
  C14. Apart from high-priority neighbor requests, no operation takes the active view past its
  configured size (or past two peers, where the configured size is smaller): joins, forwarded
  joins, low-priority requests, disconnects, shuffles, replies and timers all keep the bound.
\<close>

theorem active_view_bounded:
  assumes "choose_ok r" and "view_inv s" and "within_active_bound s"
    and "\<And>p. f \<noteq> Op_Neighbor p priority_high"
  shows "within_active_bound (apply_view_op w r f s)"
proof (cases f)
  case (Op_Shuffle q ttl nodes origin)
  with assms show ?thesis by (simp add: bound_shuffle view_inv_def)
next
  case (Op_Neighbor p prio)
  with assms(3,4) show ?thesis
    by (auto simp: inject_neighbor_def bound_add_if_room bound_disconnect)
qed (use assms(3) in \<open>simp_all add: initiate_join_def inject_join_def inject_forward_join_def
      inject_shuffle_reply_def bound_add_if_room bound_free_up bound_disconnect bound_timers Let_def\<close>)

lemma active_view_bounded_witness:
  "within_active_bound (apply_view_op toy_wire first_entropy (Op_Join (PeerId [3]) (node 3) 2)
     (small_view [node 1, node 2] []))"
proof -
  let ?s = "small_view [node 1, node 2] []"
  have "view_inv ?s" "within_active_bound ?s"
    by (simp_all add: view_inv_def within_active_bound_def hs_wf_def)
  from active_view_bounded [OF first_entropy_choose this,
      of "Op_Join (PeerId [3]) (node 3) 2" toy_wire] show ?thesis by simp
qed

end
