(* ===== verification/View_Shuffle.thy ===== *)
theory View_Shuffle
  imports View_Handlers
begin

section \<open>Neighbor requests in full, shuffles, and the periodic work\<close>

subsection \<open>Neighbor requests that are not of high priority\<close>

text \<open>
  A neighbor request of any priority but high: nothing happens when the peer is already
  active; with room it becomes active, and its arrival is announced without dialing it or
  answering; and on a full view the request is dropped without a trace. (The comment on the last
  branch says that a disconnect is sent back and the peer put into the passive view: the code calls
  \<open>inject_disconnect\<close>, which does nothing for a peer that is not active.)
\<close>

theorem inject_neighbor_spec:
  assumes "prio \<noteq> priority_high" and "peer_id p \<noteq> peer_id (hv_local_node s)"
  shows "inject_neighbor w r p prio s =
     (if is_active s (peer_id p) \<or> overconnected s then s
      else s\<lparr>hv_active := hv_active s @ [p],
             hv_out_events := hv_out_events s @ [GenerateEvent (PeerAdded (peer_id p))]\<rparr>)"
proof -
  have contains: "hs_contains peer_id p (hv_active s) = is_active s (peer_id p)"
    by (simp add: is_active_iff hs_contains_iff)
  have "\<not> is_active s (peer_id p) \<Longrightarrow>
      filter (\<lambda>q. peer_id q = peer_id p) (hv_active s) = []"
    by (auto simp: filter_empty_conv is_active_iff hs_keys_def image_iff)
  then show ?thesis
    using assms contains
    by (auto simp: inject_neighbor_def add_node_to_active_view_def inject_disconnect_def hs_insert_def
        hv_push_def is_active_iff hs_contains_iff Let_def)
qed

lemma inject_neighbor_spec_witness:
  "inject_neighbor toy_wire first_entropy (node 3) priority_low (small_view [node 1, node 2] []) =
     small_view [node 1, node 2] []"
proof -
  let ?s = "small_view [node 1, node 2] []"
  have "peer_id (node 3) \<noteq> peer_id (hv_local_node ?s)" by simp
  from inject_neighbor_spec [OF priority_distinct(1) this, of toy_wire first_entropy] show ?thesis
    by (simp add: overconnected_def)
qed

subsection \<open>Answering a shuffle\<close>

lemma shuffle_candidates_keys:
  "hs_keys peer_id (shuffle_candidates d s) =
     (hs_keys peer_id (hv_active s) \<union> hs_keys peer_id (hv_passive s)) - hs_keys peer_id d"
  by (simp add: shuffle_candidates_def)

lemma shuffle_candidates_wf: "hs_wf peer_id (shuffle_candidates d s)"
  by (simp add: shuffle_candidates_def)

lemma hs_wf_submset:
  assumes "mset ys \<subseteq># mset xs" and "hs_wf key xs"
  shows "hs_wf key ys"
proof -
  from assms(1) obtain zs where "mset xs = mset (ys @ zs)"
    by (metis ex_mset mset_append subset_mset.le_iff_add)
  from hs_wf_mset [OF this, of key] assms(2) show ?thesis by (simp add: hs_wf_append)
qed

text \<open>The peers drawn for the reply to a shuffle.\<close>

definition reply_peers :: "entropy \<Rightarrow> addressable_peer list \<Rightarrow> hyparview \<Rightarrow> addressable_peer list" where
  "reply_peers r nodes s =
     choose_multiple r (hv_draws s) (shuffle_candidates (hs_collect peer_id nodes) s)
       (shuffle_max_size (hv_config s))"

lemma shuffle_events_prefix:
  "\<exists>es. hv_out_events (inject_shuffle w r q ttl nodes origin s) =
     hv_out_events s @
     (if is_active s (peer_id origin) then [] else [dial_of s origin True]) @
     [hv_notify s (peer_id origin) (ShuffleReply (map (into_wire w) (reply_peers r nodes s)))] @ es"
  by (auto simp: inject_shuffle_def send_shuffle_reply_def reply_peers_def is_active_iff dial_of_def
      hv_notify_def Let_def split: option.split)

text \<open>
  The first thing a shuffle queues is the answer to its origin: a temporary dial when the
  origin is not active, then one \<open>ShuffleReply\<close>. Its peers are pairwise different, are known here
  (active or passive), are none of those the origin sent, and number \<open>shuffle_max_size\<close>, or all
  there are when these are fewer.
\<close>

theorem shuffle_reply_contents:
  assumes "choose_multiple_ok r"
  shows "(\<exists>es. hv_out_events (inject_shuffle w r q ttl nodes origin s) =
            hv_out_events s @
            (if is_active s (peer_id origin) then []
             else [Dial (peer_id origin) (addresses origin) (max_transmit_size (hv_config s)) True]) @
            [NotifyHandler (peer_id origin)
               (rpc_of (hv_topic s) (ShuffleReply (map (into_wire w) (reply_peers r nodes s))))] @ es)
    \<and> hs_wf peer_id (reply_peers r nodes s)
    \<and> hs_keys peer_id (reply_peers r nodes s)
        \<subseteq> (hs_keys peer_id (hv_active s) \<union> hs_keys peer_id (hv_passive s)) - hs_keys peer_id nodes
    \<and> length (reply_peers r nodes s) = min (shuffle_max_size (hv_config s))
        (card ((hs_keys peer_id (hv_active s) \<union> hs_keys peer_id (hv_passive s))
           - hs_keys peer_id nodes))"
proof -
  let ?c = "shuffle_candidates (hs_collect peer_id nodes) s"
  have "mset (reply_peers r nodes s) \<subseteq># mset ?c"
    using assms by (simp add: choose_multiple_ok_def reply_peers_def)
  then have wf: "hs_wf peer_id (reply_peers r nodes s)"
    by (rule hs_wf_submset [OF _ shuffle_candidates_wf])
  have "set (reply_peers r nodes s) \<subseteq> set ?c"
    unfolding reply_peers_def by (rule choose_multiple_subset [OF assms])
  then have "hs_keys peer_id (reply_peers r nodes s) \<subseteq> hs_keys peer_id ?c"
    by (auto simp: hs_keys_def)
  moreover have "length (reply_peers r nodes s) = min (shuffle_max_size (hv_config s)) (length ?c)"
    unfolding reply_peers_def by (rule choose_multiple_length [OF assms])
  moreover have "length ?c = card (hs_keys peer_id ?c)"
    by (rule hs_wf_length [OF shuffle_candidates_wf])
  ultimately show ?thesis
    using wf shuffle_events_prefix [of w r q ttl nodes origin s]
    by (auto simp: shuffle_candidates_keys hv_notify_def dial_of_def)
qed

lemma shuffle_reply_contents_witness:
  "length (reply_peers first_entropy [node 1] (small_view [node 1, node 2] [node 3])) = 2"
proof -
  have "choose_multiple_ok first_entropy" using first_entropy_ok by (rule entropy_okD)
  from shuffle_reply_contents [OF this, of toy_wire "PeerId [1]" 0 "[node 1]" "node 4"
      "small_view [node 1, node 2] [node 3]"]
  show ?thesis by (simp add: insert_Diff_if)
qed

subsection \<open>Learning from a shuffle\<close>

text \<open>The three stages of a shuffle: the answer, the merge of new peers, and the forwarding.\<close>

definition shuffle_answered ::
  "wire_codec \<Rightarrow> entropy \<Rightarrow> addressable_peer list \<Rightarrow> addressable_peer \<Rightarrow> hyparview \<Rightarrow> hyparview" where
  "shuffle_answered w r nodes origin s =
     send_shuffle_reply w origin (reply_peers r nodes s) (hv_draw s)"

definition shuffle_new :: "addressable_peer list \<Rightarrow> hyparview \<Rightarrow> addressable_peer list" where
  "shuffle_new nodes s =
     filter (\<lambda>n. \<not> hs_contains peer_id n (hv_active s) \<and> \<not> hs_contains peer_id n (hv_passive s)
                 \<and> peer_id n \<noteq> peer_id (hv_local_node s)) (hs_collect peer_id nodes)"

definition shuffle_merged ::
  "wire_codec \<Rightarrow> entropy \<Rightarrow> addressable_peer list \<Rightarrow> addressable_peer \<Rightarrow> hyparview \<Rightarrow> hyparview" where
  "shuffle_merged w r nodes origin s =
     (let t = shuffle_answered w r nodes origin s
      in foldl (\<lambda>s p. add_node_to_passive_view r p s) t (hash_iter r (hv_draws t) (shuffle_new nodes t)))"

definition shuffle_targets :: "peer_id \<Rightarrow> addressable_peer \<Rightarrow> hyparview \<Rightarrow> addressable_peer list" where
  "shuffle_targets q origin s =
     filter (\<lambda>n. peer_id n \<noteq> q \<and> peer_id origin \<noteq> peer_id n) (hv_active s)"

lemma inject_shuffle_stages:
  "inject_shuffle w r q ttl nodes origin s =
     (let u = shuffle_merged w r nodes origin s
      in if ttl \<noteq> 0 then
           (case choose_one r (hv_draws u) (shuffle_targets q origin u) of
              Some n \<Rightarrow> hv_push (hv_notify u (peer_id n)
                (Shuffle (ttl - 1) (into_wire w origin) (map (into_wire w) nodes))) (hv_draw u)
            | None \<Rightarrow> add_node_to_active_view w origin True (hv_draw u))
         else u)"
  by (simp only: inject_shuffle_def shuffle_merged_def shuffle_answered_def shuffle_new_def
      shuffle_targets_def reply_peers_def Let_def)

lemma shuffle_answered_fields [simp]:
  "hv_active (shuffle_answered w r nodes origin s) = hv_active s"
  "hv_passive (shuffle_answered w r nodes origin s) = hv_passive s"
  "hv_config (shuffle_answered w r nodes origin s) = hv_config s"
  "hv_topic (shuffle_answered w r nodes origin s) = hv_topic s"
  "hv_local_node (shuffle_answered w r nodes origin s) = hv_local_node s"
  by (simp_all add: shuffle_answered_def send_shuffle_reply_def Let_def)

lemma shuffle_merged_fields [simp]:
  "hv_active (shuffle_merged w r nodes origin s) = hv_active s"
  "hv_config (shuffle_merged w r nodes origin s) = hv_config s"
  "hv_topic (shuffle_merged w r nodes origin s) = hv_topic s"
  "hv_local_node (shuffle_merged w r nodes origin s) = hv_local_node s"
  "hv_out_events (shuffle_merged w r nodes origin s) =
     hv_out_events (shuffle_answered w r nodes origin s)"
  by (simp_all add: shuffle_merged_def Let_def)

lemma shuffle_new_keys:
  "hs_keys peer_id (shuffle_new nodes s) =
     hs_keys peer_id nodes - hs_keys peer_id (hv_active s) - hs_keys peer_id (hv_passive s)
       - {peer_id (hv_local_node s)}"
  unfolding hs_keys_collect [of peer_id nodes, symmetric]
  by (auto simp: shuffle_new_def hs_contains_iff hs_keys_def)

lemma length_hs_collect: "length (hs_collect key xs) \<le> length xs"
proof -
  have "length (foldl (\<lambda>s x. hs_insert key x s) s xs) \<le> length s + length xs" for s
  proof (induction xs arbitrary: s)
    case (Cons x xs)
    from Cons [of "hs_insert key x s"] length_hs_insert [of key x s] show ?case by simp
  qed simp
  from this [of "[]"] show ?thesis by (simp add: hs_collect_def)
qed

lemma length_shuffle_new: "length (shuffle_new nodes s) \<le> length nodes"
  unfolding shuffle_new_def by (rule le_trans [OF length_filter_le length_hs_collect])

lemma hs_keys_hash_iter: "hash_order_ok r \<Longrightarrow> hs_keys key (hash_iter r k xs) = hs_keys key xs"
  by (simp add: hs_keys_def set_hash_iter)

lemma length_hash_iter: "hash_order_ok r \<Longrightarrow> length (hash_iter r k xs) = length xs"
  using mset_hash_iter [of r k xs] by (metis mset_eq_length)

text \<open>
  When the passive view has room for the peers of a shuffle, it gains exactly those that are
  neither active nor passive here and are not this node itself, and it loses none.
\<close>

theorem shuffle_learns:
  assumes "hash_order_ok r"
    and "length (hv_passive s) + length nodes \<le> max_passive_view_size (hv_config s)"
  shows "hs_keys peer_id (hv_passive (inject_shuffle w r q ttl nodes origin s)) =
     hs_keys peer_id (hv_passive s) \<union>
     (hs_keys peer_id nodes - hs_keys peer_id (hv_active s) - {peer_id (hv_local_node s)})"
proof -
  let ?t = "shuffle_answered w r nodes origin s"
  let ?new = "hash_iter r (hv_draws ?t) (shuffle_new nodes ?t)"
  have "length (hv_passive ?t) + length ?new \<le> max_passive_view_size (hv_config ?t)"
    using assms(2) length_shuffle_new [of nodes ?t]
    by (simp add: length_hash_iter [OF assms(1)])
  from add_passives_room [OF this, of r] assms(1)
  have "hs_keys peer_id (hv_passive (shuffle_merged w r nodes origin s)) =
     hs_keys peer_id (hv_passive s) \<union>
     (hs_keys peer_id nodes - hs_keys peer_id (hv_active s) - {peer_id (hv_local_node s)})"
    by (auto simp: shuffle_merged_def Let_def hs_keys_hash_iter shuffle_new_keys)
  then show ?thesis by (simp add: inject_shuffle_stages Let_def split: option.split)
qed

lemma shuffle_learns_witness:
  "hs_keys peer_id (hv_passive (inject_shuffle toy_wire first_entropy (PeerId [1]) 0
     [node 2, node 0] (node 4) (small_view [node 1] []))) = {PeerId [2]}"
proof -
  have "hash_order_ok first_entropy" using first_entropy_ok by (rule entropy_okD)
  from shuffle_learns [OF this, of "small_view [node 1] []" "[node 2, node 0]" toy_wire "PeerId [1]"
      0 "node 4"]
  show ?thesis by (simp add: insert_Diff_if)
qed

text \<open>
  What happens to a shuffle next is decided by its time to live. At zero it stops here.
  Otherwise it goes on, with the time to live less one and the same origin and peers, to exactly one
  active peer that is neither its sender nor its origin; when there is no such peer, its origin
  is made active instead and nothing is forwarded. The time to live of a shuffle so decreases with
  every hop.
\<close>

theorem shuffle_forwarding:
  fixes s :: hyparview and w :: wire_codec and nodes :: "addressable_peer list"
    and origin :: addressable_peer and q :: peer_id and ttl :: u32
  assumes "choose_ok r"
  defines "answered \<equiv> hv_out_events (shuffle_answered w r nodes origin s)"
    and "after \<equiv> inject_shuffle w r q ttl nodes origin s"
  shows "(ttl = 0 \<longrightarrow> hv_out_events after = answered \<and> hv_active after = hv_active s)
    \<and> (ttl \<noteq> 0 \<and> shuffle_targets q origin s \<noteq> [] \<longrightarrow>
        hv_active after = hv_active s \<and>
        (\<exists>n \<in> set (hv_active s). peer_id n \<noteq> q \<and> peer_id n \<noteq> peer_id origin \<and>
           hv_out_events after = answered @ [NotifyHandler (peer_id n) (rpc_of (hv_topic s)
             (Shuffle (ttl - 1) (into_wire w origin) (map (into_wire w) nodes)))]))
    \<and> (ttl \<noteq> 0 \<and> shuffle_targets q origin s = [] \<longrightarrow>
        hs_keys peer_id (hv_active after) =
          hs_keys peer_id (hv_active s) \<union> ({peer_id origin} - {peer_id (hv_local_node s)}) \<and>
        (\<exists>es. hv_out_events after = answered @ es \<and> set es \<subseteq> set (activation_events w s origin True)))"
proof -
  let ?u = "shuffle_merged w r nodes origin s"
  have targets: "shuffle_targets q origin ?u = shuffle_targets q origin s"
    by (simp add: shuffle_targets_def)
  show ?thesis
  proof (cases "choose_one r (hv_draws ?u) (shuffle_targets q origin s)")
    case None
    then have "shuffle_targets q origin s = []" using assms(1) by (simp add: choose_None_iff)
    with None show ?thesis
      by (auto simp: after_def answered_def inject_shuffle_stages targets Let_def
          activation_events_def hv_notify_def dial_of_def)
  next
    case (Some n)
    then have n: "n \<in> set (shuffle_targets q origin s)" by (rule choose_Some_in [OF assms(1)])
    then have "shuffle_targets q origin s \<noteq> []" by auto
    moreover from n have "n \<in> set (hv_active s)" "peer_id n \<noteq> q" "peer_id n \<noteq> peer_id origin"
      by (auto simp: shuffle_targets_def)
    ultimately show ?thesis using Some
      by (auto simp: after_def answered_def inject_shuffle_stages targets Let_def hv_notify_def)
  qed
qed

lemma shuffle_forwarding_witness:
  "hv_active (inject_shuffle toy_wire first_entropy (PeerId [1]) 2 [] (node 4)
     (small_view [node 1, node 2] [])) = [node 1, node 2]"
proof -
  have "shuffle_targets (PeerId [1]) (node 4) (small_view [node 1, node 2] []) \<noteq> []"
    by (simp add: shuffle_targets_def)
  with shuffle_forwarding [OF first_entropy_choose, where w = toy_wire and nodes = "[]"
      and origin = "node 4" and s = "small_view [node 1, node 2] []" and q = "PeerId [1]" and ttl = 2]
  show ?thesis by simp
qed

subsection \<open>The reply to a shuffle\<close>

text \<open>
  The peers of a shuffle reply are merged into the passive view as they come, this node and its
  active peers included; but when the merged view is larger than its bound, the passive view is
  emptied. (The comment says that the excess is removed: \<open>HashSet::drain\<close> removes everything.)
\<close>

theorem shuffle_reply_drains_passive:
  assumes "view_inv s"
  shows "hs_keys peer_id (hv_passive (inject_shuffle_reply w params s)) =
     (let merged = hs_keys peer_id (hv_passive s) \<union> hs_keys peer_id (ok_peers w params)
      in if card merged \<le> max_passive_view_size (hv_config s) then merged else {})"
proof -
  let ?m = "hs_union peer_id (hv_passive s) (hs_collect peer_id (ok_peers w params))"
  have "hs_wf peer_id ?m" using assms by (simp add: view_inv_def)
  then have "length (hs_collect peer_id ?m) =
      card (hs_keys peer_id (hv_passive s) \<union> hs_keys peer_id (ok_peers w params))"
    using hs_wf_length [of peer_id ?m] by (simp add: hs_collect_distinct)
  then show ?thesis by (simp add: inject_shuffle_reply_def drain_excess_eq Let_def)
qed

lemma shuffle_reply_drains_passive_witness:
  "hv_passive (inject_shuffle_reply toy_wire [into_wire toy_wire (node 3)]
     (small_view [] [node 1, node 2])) = []"
proof -
  let ?s = "small_view [] [node 1, node 2]"
  have "view_inv ?s" by (simp add: view_inv_def hs_wf_def)
  moreover have "ok_peers toy_wire [into_wire toy_wire (node 3)] = [node 3]"
    by (simp add: ok_peers_def List.map_filter_simps try_from_wire_def into_wire_def toy_wire_def
        node_def hs_collect_def)
  ultimately have "hs_keys peer_id
      (hv_passive (inject_shuffle_reply toy_wire [into_wire toy_wire (node 3)] ?s)) = {}"
    using shuffle_reply_drains_passive [of ?s toy_wire "[into_wire toy_wire (node 3)]"]
    by (simp add: Let_def)
  then show ?thesis by (simp add: hs_keys_def)
qed

subsection \<open>Periodic work\<close>

text \<open>
  C30. The tick promotes at most one passive peer. When the view is starved and has passive peers,
  one of them leaves the passive view and becomes active (unless it is this very node, which is only
  dropped); in every other case the tick changes neither view. Its timer restarts with the tick.
\<close>

theorem tick_promotes_one:
  assumes "choose_ok r"
  shows "tick_timer w r clk s =
           (if int (tick_frequency (hv_config s)) < duration_since (clk 2) (hv_last_tick s)
            then (maybe_move_random_passive_to_active w r s)\<lparr>hv_last_tick := clk 3\<rparr> else s)
    \<and> (if starved s \<and> hv_passive s \<noteq> [] then
         \<exists>p \<in> set (hv_passive s).
           hs_keys peer_id (hv_active (maybe_move_random_passive_to_active w r s)) =
             hs_keys peer_id (hv_active s) \<union> ({peer_id p} - {peer_id (hv_local_node s)}) \<and>
           hs_keys peer_id (hv_passive (maybe_move_random_passive_to_active w r s)) =
             hs_keys peer_id (hv_passive s) - {peer_id p}
       else hv_active (maybe_move_random_passive_to_active w r s) = hv_active s \<and>
            hv_passive (maybe_move_random_passive_to_active w r s) = hv_passive s)"
proof (cases "choose_one r (hv_draws s) (hv_passive s)")
  case None
  with assms have "hv_passive s = []" by (simp add: choose_None_iff)
  with None show ?thesis by (simp add: tick_timer_def maybe_move_random_passive_to_active_def)
next
  case (Some p)
  then have "p \<in> set (hv_passive s)" by (rule choose_Some_in [OF assms])
  with Some show ?thesis
    by (auto simp: tick_timer_def maybe_move_random_passive_to_active_def intro!: bexI [of _ p])
qed

lemma tick_promotes_one_witness:
  "hs_keys peer_id (hv_active (maybe_move_random_passive_to_active toy_wire first_entropy
     (small_view [] [node 1]))) = {PeerId [1]}"
proof -
  have "starved (small_view [] [node 1])" by (simp add: starved_def)
  with tick_promotes_one [OF first_entropy_choose, of toy_wire "\<lambda>_. 0" "small_view [] [node 1]"]
  show ?thesis by simp
qed

lemma send_shuffle_events:
  "hv_out_events (send_shuffle w r p s) = hv_out_events s @
     [NotifyHandler p (rpc_of (hv_topic s)
       (Shuffle (word_of_nat (active_walk_length (hv_config s))) (into_wire w (hv_local_node s))
         (map (into_wire w) (choose_multiple r (hv_draws s) (hv_active s @ hv_passive s)
           (shuffle_max_size (hv_config s))))))]"
  by (simp add: send_shuffle_def hv_notify_def Let_def)

text \<open>
  The periodic shuffle. When its interval has passed, the timer restarts and neither view
  changes; with probability 1 or more, one shuffle goes to an active peer (if there is one), with this
  node as origin, the configured walk length, and at most \<open>shuffle_max_size\<close> peers known here; with
  probability 0 or less nothing is sent. Before the interval has passed, nothing happens.
\<close>

theorem periodic_shuffle:
  assumes "entropy_ok r"
  shows "(duration_since (clk 0) (hv_last_shuffle s) \<le> int (shuffle_interval (hv_config s)) \<longrightarrow>
            shuffle_timer w r clk s = s)
    \<and> (int (shuffle_interval (hv_config s)) < duration_since (clk 0) (hv_last_shuffle s) \<longrightarrow>
         hv_last_shuffle (shuffle_timer w r clk s) = clk 1 \<and>
         hv_active (shuffle_timer w r clk s) = hv_active s \<and>
         hv_passive (shuffle_timer w r clk s) = hv_passive s \<and>
         (shuffle_probability (hv_config s) \<le> 0 \<longrightarrow>
            hv_out_events (shuffle_timer w r clk s) = hv_out_events s) \<and>
         (1 \<le> shuffle_probability (hv_config s) \<and> hv_active s \<noteq> [] \<longrightarrow>
            (\<exists>n \<in> set (hv_active s). \<exists>ps.
               set ps \<subseteq> set (hv_active s) \<union> set (hv_passive s) \<and>
               length ps \<le> shuffle_max_size (hv_config s) \<and>
               hv_out_events (shuffle_timer w r clk s) = hv_out_events s @
                 [NotifyHandler (peer_id n) (rpc_of (hv_topic s)
                    (Shuffle (word_of_nat (active_walk_length (hv_config s)))
                      (into_wire w (hv_local_node s)) (map (into_wire w) ps)))])))"
proof (cases "int (shuffle_interval (hv_config s)) < duration_since (clk 0) (hv_last_shuffle s)")
  case False
  then show ?thesis by (simp add: shuffle_timer_def)
next
  case True
  let ?p = "shuffle_probability (hv_config s)" and ?s1 = "hv_draw s"
  have ok: "choose_ok r" "choose_multiple_ok r" "sample_ok r"
    using assms by (simp_all add: entropy_ok_def)
  have sample: "0 \<le> sample_unit r (hv_draws s)" "sample_unit r (hv_draws s) < 1"
    using ok(3) by (simp_all add: sample_ok_def)
  have low: "?p \<le> 0 \<Longrightarrow> \<not> 1 - sample_unit r (hv_draws s) \<le> ?p"
    and high: "1 \<le> ?p \<Longrightarrow> 1 - sample_unit r (hv_draws s) \<le> ?p"
    using sample by linarith+
  show ?thesis
  proof (cases "choose_one r (hv_draws ?s1) (hv_active s)")
    case None
    with ok(1) have "hv_active s = []" by (simp add: choose_None_iff)
    with None True show ?thesis by (simp add: shuffle_timer_def Let_def)
  next
    case (Some n)
    let ?ps = "choose_multiple r (hv_draws (hv_draw ?s1)) (hv_active s @ hv_passive s)
        (shuffle_max_size (hv_config s))"
    have "n \<in> set (hv_active s)" using Some by (rule choose_Some_in [OF ok(1)])
    moreover have "set ?ps \<subseteq> set (hv_active s) \<union> set (hv_passive s)"
      using choose_multiple_subset [OF ok(2)] by fastforce
    moreover have "length ?ps \<le> shuffle_max_size (hv_config s)"
      using choose_multiple_length [OF ok(2)] by simp
    ultimately show ?thesis
      using Some True low high
      by (auto simp: shuffle_timer_def send_shuffle_events Let_def send_shuffle_def hv_notify_def
          intro!: bexI [of _ n] exI [of _ ?ps])
  qed
qed

lemma periodic_shuffle_witness:
  "hv_last_shuffle (shuffle_timer toy_wire first_entropy (\<lambda>i. 70000000000) (small_view [node 1] [])) =
     70000000000"
proof -
  have "int (shuffle_interval (hv_config (small_view [node 1] []))) <
      duration_since 70000000000 (hv_last_shuffle (small_view [node 1] []))"
    by (simp add: small_view_def new_view_def duration_since_def secs_def small_config_def default_config_def)
  with periodic_shuffle [OF first_entropy_ok, of "\<lambda>i. 70000000000" "small_view [node 1] []" toy_wire]
  show ?thesis by simp
qed

end
