(* ===== verification/Sorted_Search.thy ===== *)
theory Sorted_Search
  imports Prelude
begin

section \<open>Binary search as the standard library provides it\<close>

text \<open>
  \<open>VecDeque::binary_search_by\<close>, on which the time ranges of the message caches rest. Its contract
  is the locale \<open>sorted_search\<close>: on a sequence the comparator splits into less, equal and greater
  parts, \<open>Ok\<close> is the index of some equal element and \<open>Err\<close> the index at which one would be
  inserted. Which equal element is found is not specified, so what the caches do is derived
  from the contract alone; the definition below is one function that satisfies it (the loop of
  \<open>slice::binary_search_by\<close>).
\<close>

datatype ordering = Less | Equal | Greater

fun rank_ordering :: "ordering \<Rightarrow> nat" where
  "rank_ordering Less = 0"
| "rank_ordering Equal = 1"
| "rank_ordering Greater = 2"

instantiation ordering :: linorder
begin

definition less_eq_ordering :: "ordering \<Rightarrow> ordering \<Rightarrow> bool" where
  "less_eq_ordering a b \<longleftrightarrow> rank_ordering a \<le> rank_ordering b"

definition less_ordering :: "ordering \<Rightarrow> ordering \<Rightarrow> bool" where
  "less_ordering a b \<longleftrightarrow> rank_ordering a < rank_ordering b"

instance
proof
  fix a b :: ordering
  show "a \<le> b \<Longrightarrow> b \<le> a \<Longrightarrow> a = b"
    by (cases a; cases b) (simp_all add: less_eq_ordering_def)
qed (auto simp: less_eq_ordering_def less_ordering_def)

end

lemma ordering_le_simps [simp]:
  "x \<le> Less \<longleftrightarrow> x = Less"
  "Greater \<le> x \<longleftrightarrow> x = Greater"
  "(x :: ordering) \<le> Greater"
  "Less \<le> x"
  by (cases x; simp add: less_eq_ordering_def)+

text \<open>\<open>Ord::cmp\<close> on instants.\<close>

definition cmp_instant :: "instant \<Rightarrow> instant \<Rightarrow> ordering" where
  "cmp_instant a b = (if a < b then Less else if a = b then Equal else Greater)"

lemma cmp_instant_iff [simp]:
  "cmp_instant a b = Less \<longleftrightarrow> a < b"
  "cmp_instant a b = Equal \<longleftrightarrow> a = b"
  "cmp_instant a b = Greater \<longleftrightarrow> b < a"
  by (auto simp: cmp_instant_def)

lemma cmp_instant_mono: "a \<le> b \<Longrightarrow> cmp_instant a t \<le> cmp_instant b t"
  by (auto simp: cmp_instant_def less_eq_ordering_def)

text \<open>The result \<open>Ok i\<close> is \<open>Inr i\<close>, and \<open>Err i\<close> is \<open>Inl i\<close>.\<close>

locale sorted_search =
  fixes search :: "('a \<Rightarrow> ordering) \<Rightarrow> 'a list \<Rightarrow> nat + nat"
  assumes search_Ok:
    "sorted (map f xs) \<Longrightarrow> search f xs = Inr i \<Longrightarrow> i < length xs \<and> f (xs ! i) = Equal"
    and search_Err:
    "sorted (map f xs) \<Longrightarrow> search f xs = Inl i \<Longrightarrow>
       i \<le> length xs \<and> (\<forall>j < i. f (xs ! j) = Less) \<and>
       (\<forall>j < length xs. i \<le> j \<longrightarrow> f (xs ! j) = Greater)"
begin

text \<open>\<open>unwrap_or_else(|pos| pos)\<close>: a position either way, and what lies before and after it.\<close>

lemma position_splits:
  assumes "sorted (map f xs)" and "p = (case search f xs of Inl i \<Rightarrow> i | Inr i \<Rightarrow> i)"
  shows "p \<le> length xs \<and> (\<forall>j < p. f (xs ! j) \<le> Equal) \<and>
    (\<forall>j < length xs. p \<le> j \<longrightarrow> Equal \<le> f (xs ! j))"
proof (cases "search f xs")
  case (Inl i)
  with assms(2) search_Err [OF assms(1) Inl] show ?thesis by auto
next
  case (Inr i)
  with assms(2) have p: "p = i" by simp
  from search_Ok [OF assms(1) Inr] have i: "i < length xs" "f (xs ! i) = Equal" by auto
  have mono: "f (xs ! j) \<le> f (xs ! k)" if "j \<le> k" "k < length xs" for j k
    using sorted_nth_mono [OF assms(1), of j k] that by simp
  from i mono [of _ i] mono [of i] show ?thesis unfolding p by (metis less_imp_le)
qed

end

subsection \<open>The loop\<close>

function bs_loop :: "('a \<Rightarrow> ordering) \<Rightarrow> 'a list \<Rightarrow> nat \<Rightarrow> nat \<Rightarrow> nat + nat" where
  "bs_loop f xs left right =
     (if left < right then
        let mid = left + (right - left) div 2
        in case f (xs ! mid) of
             Less \<Rightarrow> bs_loop f xs (Suc mid) right
           | Greater \<Rightarrow> bs_loop f xs left mid
           | Equal \<Rightarrow> Inr mid
      else Inl left)"
  by pat_completeness auto
termination
  by (relation "measure (\<lambda>(f, xs, left, right). right - left)") auto

declare bs_loop.simps [simp del]

definition binary_search_by :: "('a \<Rightarrow> ordering) \<Rightarrow> 'a list \<Rightarrow> nat + nat" where
  "binary_search_by f xs = bs_loop f xs 0 (length xs)"

lemma bs_loop_spec:
  assumes "sorted (map f xs)" and "left \<le> right" and "right \<le> length xs"
    and "\<forall>j < left. f (xs ! j) = Less"
    and "\<forall>j < length xs. right \<le> j \<longrightarrow> f (xs ! j) = Greater"
  shows "case bs_loop f xs left right of
           Inr i \<Rightarrow> i < length xs \<and> f (xs ! i) = Equal
         | Inl i \<Rightarrow> i \<le> length xs \<and> (\<forall>j < i. f (xs ! j) = Less) \<and>
             (\<forall>j < length xs. i \<le> j \<longrightarrow> f (xs ! j) = Greater)"
  using assms
proof (induction f xs left right rule: bs_loop.induct)
  case (1 f xs left right)
  define mid where "mid = left + (right - left) div 2"
  show ?case
  proof (cases "left < right")
    case False
    then have "bs_loop f xs left right = Inl left" by (simp add: bs_loop.simps [of f xs left right])
    with False "1.prems" show ?thesis by simp
  next
    case True
    then have mid: "left \<le> mid" "mid < right" by (auto simp: mid_def)
    have mono: "f (xs ! j) \<le> f (xs ! k)" if "j \<le> k" "k < length xs" for j k
      using sorted_nth_mono [OF "1.prems"(1), of j k] that by simp
    have unfold: "bs_loop f xs left right =
        (case f (xs ! mid) of
           Less \<Rightarrow> bs_loop f xs (Suc mid) right
         | Greater \<Rightarrow> bs_loop f xs left mid
         | Equal \<Rightarrow> Inr mid)"
      unfolding bs_loop.simps [of f xs left right] Let_def mid_def [symmetric] using True by simp
    show ?thesis
    proof (cases "f (xs ! mid)")
      case Less
      then have "\<forall>j < Suc mid. f (xs ! j) = Less"
        using mono [of _ mid] mid "1.prems"(3) by (auto simp: less_Suc_eq_le)
      with "1.IH"(1) [OF True mid_def Less] "1.prems" mid Less show ?thesis by (simp add: unfold)
    next
      case Greater
      then have "\<forall>j < length xs. mid \<le> j \<longrightarrow> f (xs ! j) = Greater"
        using mono [of mid] by auto
      with "1.IH"(2) [OF True mid_def Greater] "1.prems" mid Greater show ?thesis by (simp add: unfold)
    next
      case Equal
      with mid "1.prems"(3) show ?thesis by (simp add: unfold)
    qed
  qed
qed

interpretation std_search: sorted_search binary_search_by
proof unfold_locales
  fix f :: "'a \<Rightarrow> ordering" and xs :: "'a list" and i
  assume "sorted (map f xs)"
  then have spec: "case binary_search_by f xs of
           Inr i \<Rightarrow> i < length xs \<and> f (xs ! i) = Equal
         | Inl i \<Rightarrow> i \<le> length xs \<and> (\<forall>j < i. f (xs ! j) = Less) \<and>
             (\<forall>j < length xs. i \<le> j \<longrightarrow> f (xs ! j) = Greater)"
    unfolding binary_search_by_def by (rule bs_loop_spec) simp_all
  show "binary_search_by f xs = Inr i \<Longrightarrow> i < length xs \<and> f (xs ! i) = Equal"
    using spec by simp
  show "binary_search_by f xs = Inl i \<Longrightarrow> i \<le> length xs \<and> (\<forall>j < i. f (xs ! j) = Less) \<and>
             (\<forall>j < length xs. i \<le> j \<longrightarrow> f (xs ! j) = Greater)"
    using spec by simp
qed

end
