(* ===== verification/Cache.thy ===== *)
theory Cache
  imports Sorted_Search Wire
begin

section \<open>The expiring message caches\<close>

text \<open>
  \<open>src/src/network/episub/cache.rs\<close>: a cache of messages with a map by id and a queue by time of
  insertion. \<open>Arc\<close> shares immutable values, so an entry of the map and of the queue are equal
  values, until the map's is replaced. The item's \<open>Ord\<close> compares the hop count; it is the
  type's preorder here, and \<open>Keyed\<close> is the argument \<open>key\<close>.
\<close>

subsection \<open>Cached items\<close>

datatype message_record =
  MessageRecord (mr_id: u64) (mr_hop: u32) (mr_sender: peer_id) (mr_payload: bytes)

datatype message_info =
  MessageInfo (mi_id: u64) (mi_hop: u32) (mi_sender: peer_id)

definition record_le :: "message_record \<Rightarrow> message_record \<Rightarrow> bool" where
  "record_le a b \<longleftrightarrow> mr_hop a \<le> mr_hop b"

definition record_less :: "message_record \<Rightarrow> message_record \<Rightarrow> bool" where
  "record_less a b \<longleftrightarrow> mr_hop a < mr_hop b"

definition info_le :: "message_info \<Rightarrow> message_info \<Rightarrow> bool" where
  "info_le a b \<longleftrightarrow> mi_hop a \<le> mi_hop b"

definition info_less :: "message_info \<Rightarrow> message_info \<Rightarrow> bool" where
  "info_less a b \<longleftrightarrow> mi_hop a < mi_hop b"

instantiation message_record :: preorder
begin

definition less_eq_message_record :: "message_record \<Rightarrow> message_record \<Rightarrow> bool" where
  "a \<le> b \<longleftrightarrow> record_le a b"

definition less_message_record :: "message_record \<Rightarrow> message_record \<Rightarrow> bool" where
  "a < b \<longleftrightarrow> record_less a b"

instance
  by standard (auto simp: less_eq_message_record_def less_message_record_def record_le_def record_less_def)

end

instantiation message_info :: preorder
begin

definition less_eq_message_info :: "message_info \<Rightarrow> message_info \<Rightarrow> bool" where
  "a \<le> b \<longleftrightarrow> info_le a b"

definition less_message_info :: "message_info \<Rightarrow> message_info \<Rightarrow> bool" where
  "a < b \<longleftrightarrow> info_less a b"

instance
  by standard (auto simp: less_eq_message_info_def less_message_info_def info_le_def info_less_def)

end

lemmas hop_order = less_message_record_def record_less_def less_message_info_def info_less_def

text \<open>\<open>PartialEq\<close> of \<open>MessageInfo\<close> compares ids only.\<close>

definition info_eq :: "message_info \<Rightarrow> message_info \<Rightarrow> bool" where
  "info_eq a b \<longleftrightarrow> mi_id a = mi_id b"

text \<open>\<open>From<MessageRecord> for rpc::Message\<close>\<close>

definition message_of_record :: "message_record \<Rightarrow> rpc_action" where
  "message_of_record m = Message (mr_id m) (mr_hop m) (mr_payload m)"

subsection \<open>The cache\<close>

text \<open>\<open>Timed<T>\<close> compares by time only: equality and order look at the instant.\<close>

datatype 'a timed = Timed (timed_value: 'a) (timed_time: instant)

definition timed_eq :: "'a timed \<Rightarrow> 'a timed \<Rightarrow> bool" where
  "timed_eq a b \<longleftrightarrow> timed_time a = timed_time b"

definition timed_le :: "'a timed \<Rightarrow> 'a timed \<Rightarrow> bool" where
  "timed_le a b \<longleftrightarrow> timed_time a \<le> timed_time b"

definition timed_less :: "'a timed \<Rightarrow> 'a timed \<Rightarrow> bool" where
  "timed_less a b \<longleftrightarrow> timed_time a < timed_time b"

instantiation timed :: (type) preorder
begin

definition less_eq_timed :: "'a timed \<Rightarrow> 'a timed \<Rightarrow> bool" where
  "a \<le> b \<longleftrightarrow> timed_le a b"

definition less_timed :: "'a timed \<Rightarrow> 'a timed \<Rightarrow> bool" where
  "a < b \<longleftrightarrow> timed_less a b"

instance
  by standard (auto simp: less_eq_timed_def less_timed_def timed_le_def timed_less_def)

end

record ('k, 'a) expiring_cache =
  ec_data :: "'k \<rightharpoonup> 'a timed"
  ec_by_time :: "'a timed list"

definition cache_new :: "('k, 'a) expiring_cache" where
  "cache_new = \<lparr>ec_data = Map.empty, ec_by_time = []\<rparr>"

text \<open>
  \<open>insert\<close>; the clock is read once, when the item is wrapped. The result is true for a new key.
  An item with fewer hops than the stored one replaces it in the map, not in the queue.
\<close>

definition cache_insert ::
  "('a \<Rightarrow> 'k) \<Rightarrow> instant \<Rightarrow> 'a::preorder \<Rightarrow> ('k, 'a) expiring_cache \<Rightarrow> bool \<times> ('k, 'a) expiring_cache" where
  "cache_insert key now item c =
     (let ptr = Timed item now
      in case ec_data c (key item) of
           Some o' \<Rightarrow>
             (False, if item < timed_value o' then c\<lparr>ec_data := (ec_data c)(key item \<mapsto> ptr)\<rparr> else c)
         | None \<Rightarrow>
             (True, c\<lparr>ec_data := (ec_data c)(key item \<mapsto> ptr), ec_by_time := ec_by_time c @ [ptr]\<rparr>))"

definition cache_get :: "'k \<Rightarrow> ('k, 'a) expiring_cache \<Rightarrow> 'a option" where
  "cache_get k c = map_option timed_value (ec_data c k)"

text \<open>\<open>binary_search_by(|x| x.time().cmp(&t)).unwrap_or_else(|pos| pos)\<close>\<close>

definition time_position :: "instant \<Rightarrow> 'a timed list \<Rightarrow> nat" where
  "time_position t xs =
     (case binary_search_by (\<lambda>x. cmp_instant (timed_time x) t) xs of Inl p \<Rightarrow> p | Inr p \<Rightarrow> p)"

text \<open>\<open>VecDeque::range(start..end)\<close> panics when the start is past the end.\<close>

definition iter_range :: "instant \<Rightarrow> instant \<Rightarrow> ('k, 'a) expiring_cache \<Rightarrow> panic + 'a list" where
  "iter_range t0 t1 c =
     (let start = time_position t0 (ec_by_time c); stop = time_position t1 (ec_by_time c)
      in if stop < start then Inl Slice_Range
         else Inr (map timed_value (take (stop - start) (drop start (ec_by_time c)))))"

fun expire_loop ::
  "('a \<Rightarrow> 'k) \<Rightarrow> instant \<Rightarrow> ('k \<rightharpoonup> 'a timed) \<Rightarrow> 'a timed list \<Rightarrow> ('k \<rightharpoonup> 'a timed) \<times> 'a timed list" where
  "expire_loop key since data [] = (data, [])"
| "expire_loop key since data (e # es) =
     (if since < timed_time e then (data, e # es)
      else expire_loop key since (data(key (timed_value e) := None)) es)"

definition remove_older_than ::
  "('a \<Rightarrow> 'k) \<Rightarrow> instant \<Rightarrow> ('k, 'a) expiring_cache \<Rightarrow> ('k, 'a) expiring_cache" where
  "remove_older_than key since c =
     (let (data, by_time) = expire_loop key since (ec_data c) (ec_by_time c)
      in c\<lparr>ec_data := data, ec_by_time := by_time\<rparr>)"

end
