(* ===== verification/Cache_Correct.thy ===== *)
theory Cache_Correct
  imports Cache Hash_Sets
begin

section \<open>Correctness of the message caches\<close>

subsection \<open>The interface the broadcast tree uses\<close>

text \<open>
  A store of messages that remembers each id for a while. \<open>stored_at\<close> is the time at which the id was
  accepted; \<open>not_after t s\<close> says that nothing in the store is later than \<open>t\<close>. From the laws alone: an id is
  accepted once, then refused until an expiry at or after its acceptance drops it.
\<close>

locale message_store =
  fixes insert_at :: "instant \<Rightarrow> 'a::preorder \<Rightarrow> 's \<Rightarrow> bool \<times> 's"
    and lookup :: "'k \<Rightarrow> 's \<Rightarrow> 'a option"
    and expire :: "instant \<Rightarrow> 's \<Rightarrow> 's"
    and stored_at :: "'k \<Rightarrow> 's \<Rightarrow> instant option"
    and item_key :: "'a \<Rightarrow> 'k"
    and store_inv :: "'s \<Rightarrow> bool"
    and not_after :: "instant \<Rightarrow> 's \<Rightarrow> bool"
  assumes accept_iff: "fst (insert_at t x s) \<longleftrightarrow> lookup (item_key x) s = None"
    and lookup_insert: "lookup k (snd (insert_at t x s)) =
      (if k = item_key x then
         Some (case lookup k s of None \<Rightarrow> x | Some y \<Rightarrow> if x < y then x else y)
       else lookup k s)"
    and stored_insert: "store_inv s \<Longrightarrow> stored_at k (snd (insert_at t x s)) =
      (if k = item_key x \<and> lookup k s = None then Some t else stored_at k s)"
    and stored_iff: "store_inv s \<Longrightarrow> stored_at k s = None \<longleftrightarrow> lookup k s = None"
    and inv_insert: "store_inv s \<Longrightarrow> not_after t s \<Longrightarrow> store_inv (snd (insert_at t x s))"
    and inv_expire: "store_inv s \<Longrightarrow> store_inv (expire since s)"
    and lookup_expire: "store_inv s \<Longrightarrow> lookup k (expire since s) =
      (case stored_at k s of None \<Rightarrow> None | Some t \<Rightarrow> if t \<le> since then None else lookup k s)"
    and stored_expire: "store_inv s \<Longrightarrow> stored_at k (expire since s) =
      (case stored_at k s of None \<Rightarrow> None | Some t \<Rightarrow> if t \<le> since then None else Some t)"
    and not_after_insert: "not_after t s \<Longrightarrow> t \<le> u \<Longrightarrow> not_after u (snd (insert_at u x s))"
    and not_after_expire: "not_after t s \<Longrightarrow> not_after t (expire since s)"
    and not_after_mono: "not_after t s \<Longrightarrow> t \<le> u \<Longrightarrow> not_after u s"
begin

lemma refused_while_stored:
  "store_inv s \<Longrightarrow> stored_at (item_key x) s = Some t0 \<Longrightarrow> \<not> fst (insert_at t x s)"
  using stored_iff [of s "item_key x"] by (auto simp: accept_iff)

lemma stored_kept_insert:
  "store_inv s \<Longrightarrow> stored_at k s = Some t0 \<Longrightarrow> stored_at k (snd (insert_at t x s)) = Some t0"
  using stored_iff [of s k] by (auto simp: stored_insert)

lemma stored_kept_expire:
  "store_inv s \<Longrightarrow> stored_at k s = Some t0 \<Longrightarrow> since < t0 \<Longrightarrow> stored_at k (expire since s) = Some t0"
  by (simp add: stored_expire)

lemma accepted_is_stored:
  "store_inv s \<Longrightarrow> fst (insert_at t x s) \<Longrightarrow>
   stored_at (item_key x) (snd (insert_at t x s)) = Some t"
  by (simp add: stored_insert accept_iff)

lemma lookup_after_insert: "lookup (item_key x) (snd (insert_at t x s)) \<noteq> None"
  by (simp add: lookup_insert)

text \<open>The stored item is never beaten by one offered under the same key.\<close>

lemma stored_minimal:
  "lookup (item_key x) (snd (insert_at t x s)) = Some y \<Longrightarrow> \<not> x < y"
  by (auto simp: lookup_insert split: option.splits if_splits)

end

subsection \<open>The invariant between the map and the queue\<close>

definition entry_key :: "('a \<Rightarrow> 'k) \<Rightarrow> 'a timed \<Rightarrow> 'k" where
  "entry_key key e = key (timed_value e)"

lemma entry_key_timed [simp]: "entry_key key (Timed x t) = key x"
  by (simp add: entry_key_def)

text \<open>
  The queue holds every key of the map once, in order of time; the map's entry for a key is the queue's
  or a later one with a smaller item.
\<close>

definition cache_inv :: "('a \<Rightarrow> 'k) \<Rightarrow> ('k, 'a::preorder) expiring_cache \<Rightarrow> bool" where
  "cache_inv key c \<longleftrightarrow>
     hs_wf (entry_key key) (ec_by_time c) \<and>
     dom (ec_data c) = hs_keys (entry_key key) (ec_by_time c) \<and>
     sorted (map timed_time (ec_by_time c)) \<and>
     (\<forall>e \<in> set (ec_by_time c). \<exists>d. ec_data c (entry_key key e) = Some d \<and>
        entry_key key d = entry_key key e \<and> timed_time e \<le> timed_time d \<and>
        (d = e \<or> timed_value d < timed_value e))"

definition cache_not_after :: "instant \<Rightarrow> ('k, 'a) expiring_cache \<Rightarrow> bool" where
  "cache_not_after t c \<longleftrightarrow> (\<forall>e \<in> set (ec_by_time c). timed_time e \<le> t)"

definition cache_stored_at :: "('a \<Rightarrow> 'k) \<Rightarrow> 'k \<Rightarrow> ('k, 'a) expiring_cache \<Rightarrow> instant option" where
  "cache_stored_at key k c =
     map_option timed_time (find (\<lambda>e. entry_key key e = k) (ec_by_time c))"

lemma cache_new_inv [simp]: "cache_inv key cache_new" "cache_not_after t cache_new"
  by (simp_all add: cache_inv_def cache_new_def cache_not_after_def)

lemma cache_get_new [simp]: "cache_get k cache_new = None"
  by (simp add: cache_get_def cache_new_def)

lemma cache_insert_inv:
  assumes "cache_inv key c" and "cache_not_after t c"
  shows "cache_inv key (snd (cache_insert key t x c))"
proof (cases "ec_data c (key x)")
  case None
  then have "key x \<notin> hs_keys (entry_key key) (ec_by_time c)"
    using assms(1) by (auto simp: cache_inv_def)
  then have "entry_key key e \<noteq> key x" if "e \<in> set (ec_by_time c)" for e
    using that by (force simp: hs_keys_def)
  with \<open>key x \<notin> _\<close> show ?thesis
    using assms None
    by (simp add: cache_inv_def cache_insert_def cache_not_after_def hs_wf_append sorted_append
        entry_key_timed Let_def)
next
  case (Some d)
  show ?thesis
  proof (cases "x < timed_value d")
    case True
    have "\<exists>d'. ((ec_data c)(key x \<mapsto> Timed x t)) (entry_key key e) = Some d' \<and>
        entry_key key d' = entry_key key e \<and> timed_time e \<le> timed_time d' \<and>
        (d' = e \<or> timed_value d' < timed_value e)"
      if e: "e \<in> set (ec_by_time c)" for e
    proof (cases "entry_key key e = key x")
      case same: True
      with assms(1) e Some have "timed_value d = timed_value e \<or> timed_value d < timed_value e"
        by (auto simp: cache_inv_def)
      with True have "x < timed_value e" by (auto intro: order.strict_trans)
      with same e assms(2) show ?thesis
        by (auto simp: cache_not_after_def entry_key_def)
    next
      case False
      with assms(1) e show ?thesis by (simp add: cache_inv_def)
    qed
    moreover have "key x \<in> dom (ec_data c)" using Some by auto
    ultimately show ?thesis
      using assms(1) Some True
      by (simp add: cache_inv_def cache_insert_def insert_absorb Let_def)
  qed (use assms(1) Some in \<open>simp add: cache_insert_def Let_def\<close>)
qed

lemma cache_insert_not_after:
  "cache_not_after t c \<Longrightarrow> t \<le> u \<Longrightarrow> cache_not_after u (snd (cache_insert key u x c))"
  by (auto simp: cache_not_after_def cache_insert_def Let_def split: option.split)

subsection \<open>Expiry\<close>

text \<open>What the loop computes: on a queue sorted by time, the late part of the queue.\<close>

lemma expire_loop_by_time:
  "sorted (map timed_time es) \<Longrightarrow>
   snd (expire_loop key since data es) = filter (\<lambda>e. since < timed_time e) es"
proof (induction es arbitrary: data)
  case (Cons e es)
  show ?case
  proof (cases "since < timed_time e")
    case True
    with Cons.prems have "filter (\<lambda>e. since < timed_time e) es = es"
      by (auto simp: filter_id_conv)
    with True show ?thesis by simp
  next
    case False
    with Cons show ?thesis by simp
  qed
qed simp

lemma expire_loop_data:
  "sorted (map timed_time es) \<Longrightarrow>
   fst (expire_loop key since data es) =
     (\<lambda>k. if \<exists>e \<in> set es. entry_key key e = k \<and> timed_time e \<le> since then None else data k)"
proof (induction es arbitrary: data)
  case (Cons e es)
  show ?case
  proof (cases "since < timed_time e")
    case True
    with Cons.prems show ?thesis by fastforce
  next
    case False
    with Cons show ?thesis by (auto simp: entry_key_def fun_eq_iff)
  qed
qed simp

lemma remove_older_than_fields:
  assumes "sorted (map timed_time (ec_by_time c))"
  shows "ec_by_time (remove_older_than key since c) =
      filter (\<lambda>e. since < timed_time e) (ec_by_time c)"
    and "ec_data (remove_older_than key since c) =
      (\<lambda>k. if \<exists>e \<in> set (ec_by_time c). entry_key key e = k \<and> timed_time e \<le> since then None
           else ec_data c k)"
  using expire_loop_by_time [OF assms, of key since "ec_data c"]
    expire_loop_data [OF assms, of key since "ec_data c"]
  by (simp_all add: remove_older_than_def case_prod_beta)

lemma entry_unique:
  "hs_wf key es \<Longrightarrow> d \<in> set es \<Longrightarrow> e \<in> set es \<Longrightarrow> key d = key e \<Longrightarrow> d = e"
  by (auto simp: hs_wf_def distinct_map dest: inj_onD)

lemma sorted_filter_times:
  "sorted (map timed_time es) \<Longrightarrow> sorted (map timed_time (filter P es))"
  by (rule sorted_filter)

lemma remove_older_than_inv:
  assumes "cache_inv key c"
  shows "cache_inv key (remove_older_than key since c)"
proof -
  have sorted: "sorted (map timed_time (ec_by_time c))"
    and wf: "hs_wf (entry_key key) (ec_by_time c)"
    using assms by (simp_all add: cache_inv_def)
  note fields = remove_older_than_fields [OF sorted]
  have late: "(\<exists>d \<in> set (ec_by_time c). entry_key key d = entry_key key e \<and> timed_time d \<le> since)
      \<longleftrightarrow> timed_time e \<le> since" if "e \<in> set (ec_by_time c)" for e
    using entry_unique [OF wf that] that by metis
  have "dom (ec_data (remove_older_than key since c)) =
      hs_keys (entry_key key) (filter (\<lambda>e. since < timed_time e) (ec_by_time c))"
  proof -
    have "dom (ec_data c) = hs_keys (entry_key key) (ec_by_time c)"
      using assms by (simp add: cache_inv_def)
    then show ?thesis
      using late by (force simp: fields(2) hs_keys_def dom_def not_le split: if_splits)
  qed
  moreover have "\<forall>e \<in> set (filter (\<lambda>e. since < timed_time e) (ec_by_time c)).
      ec_data (remove_older_than key since c) (entry_key key e) = ec_data c (entry_key key e)"
    using late by (auto simp: fields(2))
  ultimately show ?thesis
    using assms wf sorted sorted_filter_times [OF sorted, of "\<lambda>e. since < timed_time e"]
    by (simp add: cache_inv_def fields(1))
qed

lemma expire_loop_subset: "set (snd (expire_loop key since data es)) \<subseteq> set es"
  by (induction es arbitrary: data) auto

lemma remove_older_than_not_after:
  "cache_not_after t c \<Longrightarrow> cache_not_after t (remove_older_than key since c)"
  using expire_loop_subset [of key since "ec_data c" "ec_by_time c"]
  by (auto simp: cache_not_after_def remove_older_than_def case_prod_beta)

subsection \<open>The caches satisfy the interface\<close>

lemma stored_at_Some:
  assumes "hs_wf (entry_key key) (ec_by_time c)"
  shows "cache_stored_at key k c = Some t \<longleftrightarrow>
    (\<exists>e \<in> set (ec_by_time c). entry_key key e = k \<and> timed_time e = t)"
proof -
  have found: "find (\<lambda>e. entry_key key e = k) (ec_by_time c) = Some e \<longleftrightarrow>
      e \<in> set (ec_by_time c) \<and> entry_key key e = k" for e
  proof -
    have "\<exists>!e. e \<in> set (ec_by_time c) \<and> entry_key key e = k"
      if "e \<in> set (ec_by_time c)" "entry_key key e = k"
      using entry_unique [OF assms] that by blast
    then show ?thesis
      using entry_unique [OF assms]
      by (cases "find (\<lambda>e. entry_key key e = k) (ec_by_time c)")
        (auto simp: find_None_iff find_Some_iff in_set_conv_nth)
  qed
  show ?thesis by (auto simp: cache_stored_at_def found)
qed

lemma stored_at_None:
  "cache_stored_at key k c = None \<longleftrightarrow> k \<notin> hs_keys (entry_key key) (ec_by_time c)"
  by (auto simp: cache_stored_at_def find_None_iff hs_keys_def)

lemma stored_at_insert:
  assumes "cache_inv key c"
  shows "cache_stored_at key k (snd (cache_insert key t x c)) =
    (if k = key x \<and> cache_get k c = None then Some t else cache_stored_at key k c)"
proof (cases "ec_data c (key x)")
  case None
  then have "cache_stored_at key (key x) c = None"
    using assms by (auto simp: stored_at_None cache_inv_def)
  with None show ?thesis
    by (auto simp: cache_stored_at_def cache_insert_def cache_get_def Let_def find_append
        split: option.split)
qed (auto simp: cache_stored_at_def cache_insert_def cache_get_def Let_def)

lemma stored_at_iff_get: "cache_inv key c \<Longrightarrow> cache_stored_at key k c = None \<longleftrightarrow> cache_get k c = None"
  by (auto simp: stored_at_None cache_inv_def cache_get_def)

lemma cache_get_insert:
  "cache_get k (snd (cache_insert key t x c)) =
    (if k = key x then Some (case cache_get k c of None \<Rightarrow> x | Some y \<Rightarrow> if x < y then x else y)
     else cache_get k c)"
  by (auto simp: cache_get_def cache_insert_def Let_def split: option.split)

lemma cache_insert_accepts: "fst (cache_insert key t x c) \<longleftrightarrow> cache_get (key x) c = None"
  by (simp add: cache_insert_def cache_get_def Let_def split: option.split)

lemma stored_at_expire:
  assumes "cache_inv key c"
  shows "cache_stored_at key k (remove_older_than key since c) =
      (case cache_stored_at key k c of None \<Rightarrow> None | Some t \<Rightarrow> if t \<le> since then None else Some t)"
proof -
  have wf: "hs_wf (entry_key key) (ec_by_time c)" and sorted: "sorted (map timed_time (ec_by_time c))"
    using assms by (simp_all add: cache_inv_def)
  have wf': "hs_wf (entry_key key) (ec_by_time (remove_older_than key since c))"
    using remove_older_than_inv [OF assms] by (simp add: cache_inv_def)
  note fields = remove_older_than_fields(1) [OF sorted]
  have "cache_stored_at key k (remove_older_than key since c) = Some t \<longleftrightarrow>
      cache_stored_at key k c = Some t \<and> since < t" for t
    by (auto simp: stored_at_Some [OF wf] stored_at_Some [OF wf'] fields)
  then show ?thesis by (intro option_eqI) (auto split: option.split simp: not_le)
qed

lemma cache_get_expire:
  assumes "cache_inv key c"
  shows "cache_get k (remove_older_than key since c) =
      (case cache_stored_at key k c of None \<Rightarrow> None
       | Some t \<Rightarrow> if t \<le> since then None else cache_get k c)"
proof (cases "cache_stored_at key k c")
  case None
  then have "cache_stored_at key k (remove_older_than key since c) = None"
    by (simp add: stored_at_expire [OF assms])
  with None show ?thesis
    by (simp add: stored_at_iff_get [OF remove_older_than_inv [OF assms]])
next
  case (Some t)
  have wf: "hs_wf (entry_key key) (ec_by_time c)" and sorted: "sorted (map timed_time (ec_by_time c))"
    using assms by (simp_all add: cache_inv_def)
  from Some obtain e where e: "e \<in> set (ec_by_time c)" "entry_key key e = k" "timed_time e = t"
    by (auto simp: stored_at_Some [OF wf])
  have "(\<exists>d \<in> set (ec_by_time c). entry_key key d = k \<and> timed_time d \<le> since) \<longleftrightarrow> t \<le> since"
  proof
    assume "\<exists>d \<in> set (ec_by_time c). entry_key key d = k \<and> timed_time d \<le> since"
    then obtain d where d: "d \<in> set (ec_by_time c)" "entry_key key d = k" "timed_time d \<le> since"
      by blast
    with entry_unique [OF wf d(1) e(1)] e show "t \<le> since" by simp
  qed (use e in blast)
  with Some show ?thesis by (simp add: cache_get_def remove_older_than_fields(2) [OF sorted])
qed

lemma cache_is_store:
  "message_store (cache_insert key) cache_get (remove_older_than key) (cache_stored_at key) key
     (cache_inv key) cache_not_after"
proof unfold_locales
  show "cache_not_after u c" if "cache_not_after t c" "t \<le> u"
    for t u and c :: "('b, 'a) expiring_cache"
    using that by (auto simp: cache_not_after_def)
  show "cache_not_after t (remove_older_than key since c)" if "cache_not_after t c"
    for t since and c :: "('b, 'a) expiring_cache"
    using that by (rule remove_older_than_not_after)
qed (fact cache_insert_accepts cache_get_insert stored_at_insert stored_at_iff_get cache_insert_inv
    remove_older_than_inv cache_get_expire stored_at_expire cache_insert_not_after)+

end
