(* ===== verification/Cache_Properties.thy ===== *)
theory Cache_Properties
  imports Cache_Correct
begin

section \<open>What the message caches guarantee\<close>

text \<open>
  The interpretations of the store interface on the two caches of a topic, the messages it has
  (\<open>received\<close>) and the ids it was told about (\<open>observed\<close>), the timed map they refine, then the properties: duplicates are refused
  for the whole time an id is kept, the exact meaning of a time range, and the entries the range misses.
\<close>

interpretation received_store: message_store "cache_insert mr_id" cache_get "remove_older_than mr_id"
  "cache_stored_at mr_id" mr_id "cache_inv mr_id" cache_not_after
  by (rule cache_is_store)

interpretation observed_store: message_store "cache_insert mi_id" cache_get "remove_older_than mi_id"
  "cache_stored_at mi_id" mi_id "cache_inv mi_id" cache_not_after
  by (rule cache_is_store)

subsection \<open>Runs of a cache\<close>

datatype 'a cache_op = InsertAt instant 'a | ExpireTo instant

fun cache_step :: "('a::preorder \<Rightarrow> 'k) \<Rightarrow> ('k, 'a) expiring_cache \<Rightarrow> 'a cache_op \<Rightarrow> ('k, 'a) expiring_cache" where
  "cache_step key c (InsertAt t x) = snd (cache_insert key t x c)"
| "cache_step key c (ExpireTo since) = remove_older_than key since c"

definition cache_run ::
  "('a::preorder \<Rightarrow> 'k) \<Rightarrow> 'a cache_op list \<Rightarrow> ('k, 'a) expiring_cache \<Rightarrow> ('k, 'a) expiring_cache" where
  "cache_run key ops c = foldl (cache_step key) c ops"

text \<open>The insertions of a run happen in the order of the clock, none before \<open>t\<close>.\<close>

fun ops_from :: "instant \<Rightarrow> 'a cache_op list \<Rightarrow> bool" where
  "ops_from t [] \<longleftrightarrow> True"
| "ops_from t (InsertAt u x # ops) \<longleftrightarrow> t \<le> u \<and> ops_from u ops"
| "ops_from t (ExpireTo since # ops) \<longleftrightarrow> ops_from t ops"

text \<open>No expiry of the run reaches \<open>t\<close>.\<close>

fun expires_before :: "instant \<Rightarrow> 'a cache_op list \<Rightarrow> bool" where
  "expires_before t [] \<longleftrightarrow> True"
| "expires_before t (InsertAt u x # ops) \<longleftrightarrow> expires_before t ops"
| "expires_before t (ExpireTo since # ops) \<longleftrightarrow> since < t \<and> expires_before t ops"

subsection \<open>The store as a timed map\<close>

text \<open>
  The abstract store: an id is mapped to the time of its acceptance and the best item offered since. The
  representation, a map and a queue that disagree on an item that was replaced, is forgotten.
\<close>

fun timed_map_step ::
  "('a::preorder \<Rightarrow> 'k) \<Rightarrow> ('k \<rightharpoonup> instant \<times> 'a) \<Rightarrow> 'a cache_op \<Rightarrow> ('k \<rightharpoonup> instant \<times> 'a)" where
  "timed_map_step key m (InsertAt t x) =
     m(key x \<mapsto> (case m (key x) of None \<Rightarrow> (t, x) | Some (u, y) \<Rightarrow> (u, if x < y then x else y)))"
| "timed_map_step key m (ExpireTo since) =
     (\<lambda>k. case m k of None \<Rightarrow> None | Some (u, y) \<Rightarrow> if u \<le> since then None else Some (u, y))"

definition store_abs ::
  "('k \<Rightarrow> 's \<Rightarrow> instant option) \<Rightarrow> ('k \<Rightarrow> 's \<Rightarrow> 'a option) \<Rightarrow> 's \<Rightarrow> ('k \<rightharpoonup> instant \<times> 'a)" where
  "store_abs stored look s = (\<lambda>k. case stored k s of None \<Rightarrow> None | Some t \<Rightarrow> map_option (Pair t) (look k s))"

context message_store
begin

lemma run_keeps:
  assumes "\<And>s t x. step s (InsertAt t x) = snd (insert_at t x s)"
    and "\<And>s since. step s (ExpireTo since) = expire since s"
  shows "store_inv s \<Longrightarrow> not_after t s \<Longrightarrow> ops_from t ops \<Longrightarrow> expires_before t0 ops \<Longrightarrow>
    stored_at k s = Some t0 \<Longrightarrow>
    store_inv (foldl step s ops) \<and> stored_at k (foldl step s ops) = Some t0"
proof (induction ops arbitrary: s t)
  case (Cons op ops)
  show ?case
  proof (cases op)
    case (InsertAt u x)
    with Cons.prems inv_insert [of s u x] not_after_mono [of t s u] not_after_insert [of t s u x]
      stored_kept_insert [of s k t0 u x]
    show ?thesis by (simp add: assms Cons.IH [of _ u])
  next
    case (ExpireTo since)
    with Cons.prems inv_expire not_after_expire stored_kept_expire
    show ?thesis by (simp add: assms Cons.IH [of _ t])
  qed
qed simp

text \<open>Once accepted, an id is refused until an expiry reaches the time of its acceptance.\<close>

lemma run_refuses:
  assumes "\<And>s t x. step s (InsertAt t x) = snd (insert_at t x s)"
    and "\<And>s since. step s (ExpireTo since) = expire since s"
    and "store_inv s" and "not_after t s" and "fst (insert_at t x s)"
    and "ops_from t ops" and "expires_before t ops" and "item_key y = item_key x"
  shows "\<not> fst (insert_at u y (foldl step (snd (insert_at t x s)) ops))"
proof -
  have "store_inv (foldl step (snd (insert_at t x s)) ops) \<and>
      stored_at (item_key x) (foldl step (snd (insert_at t x s)) ops) = Some t"
    using assms(6,7) inv_insert [OF assms(3,4)] not_after_insert [OF assms(4)]
      accepted_is_stored [OF assms(3,5)]
    by (intro run_keeps [OF assms(1,2)]) simp_all
  with assms(8) show ?thesis by (intro refused_while_stored [of _ y t]) simp_all
qed

lemma abs_look: "store_inv s \<Longrightarrow> map_option snd (store_abs stored_at lookup s k) = lookup k s"
  using stored_iff [of s k] by (cases "lookup k s") (auto simp: store_abs_def split: option.split)

lemma abs_stored: "store_inv s \<Longrightarrow> map_option fst (store_abs stored_at lookup s k) = stored_at k s"
  using stored_iff [of s k] by (cases "lookup k s") (auto simp: store_abs_def split: option.split)

lemma abs_insert:
  assumes "store_inv s"
  shows "store_abs stored_at lookup (snd (insert_at t x s)) =
    timed_map_step item_key (store_abs stored_at lookup s) (InsertAt t x)"
proof
  fix k
  show "store_abs stored_at lookup (snd (insert_at t x s)) k =
    timed_map_step item_key (store_abs stored_at lookup s) (InsertAt t x) k"
    using stored_iff [OF assms, of k]
    by (cases "lookup k s") (auto simp: store_abs_def stored_insert [OF assms] lookup_insert)
qed

lemma abs_expire:
  assumes "store_inv s"
  shows "store_abs stored_at lookup (expire since s) =
    timed_map_step item_key (store_abs stored_at lookup s) (ExpireTo since)"
  using stored_iff [OF assms]
  by (auto simp: store_abs_def stored_expire [OF assms] lookup_expire [OF assms] fun_eq_iff split: option.split)

lemma run_refines:
  assumes "\<And>s t x. step s (InsertAt t x) = snd (insert_at t x s)"
    and "\<And>s since. step s (ExpireTo since) = expire since s"
  shows "store_inv s \<Longrightarrow> not_after t s \<Longrightarrow> ops_from t ops \<Longrightarrow>
    store_inv (foldl step s ops) \<and>
    store_abs stored_at lookup (foldl step s ops) = foldl (timed_map_step item_key) (store_abs stored_at lookup s) ops"
proof (induction ops arbitrary: s t)
  case (Cons op ops)
  show ?case
  proof (cases op)
    case (InsertAt u x)
    with Cons.prems inv_insert [of s u x] not_after_mono [of t s u] not_after_insert [of t s u x] abs_insert [of s u x]
    show ?thesis by (simp add: assms Cons.IH [of _ u] del: timed_map_step.simps)
  next
    case (ExpireTo since)
    with Cons.prems inv_expire not_after_expire abs_expire [of s since]
    show ?thesis by (simp add: assms Cons.IH [of _ t] del: timed_map_step.simps)
  qed
qed simp

text \<open>An expiry that reaches it makes the id acceptable again.\<close>

lemma expired_accepts:
  "store_inv s \<Longrightarrow> stored_at (item_key y) s = Some t \<Longrightarrow> t \<le> since \<Longrightarrow>
   fst (insert_at u y (expire since s))"
  by (simp add: accept_iff lookup_expire)

end

subsection \<open>Properties\<close>

text \<open>
  C24. At-most-once acceptance: a message accepted into the cache at time \<open>t\<close> is refused, under any
  hop count and sender, after every run of insertions in clock order and expiries that stop before
  \<open>t\<close>; an expiry that reaches \<open>t\<close> makes the next copy acceptable again.
\<close>

theorem cache_refuses_duplicates:
  assumes "cache_inv mr_id c" and "cache_not_after t c"
    and "fst (cache_insert mr_id t x c)"
    and "ops_from t ops" and "expires_before t ops" and "mr_id y = mr_id x"
    and "c' = cache_run mr_id ops (snd (cache_insert mr_id t x c))"
  shows "\<not> fst (cache_insert mr_id u y c') \<and>
    (t \<le> since \<longrightarrow> fst (cache_insert mr_id u y (remove_older_than mr_id since c')))"
proof -
  let ?c = "snd (cache_insert mr_id t x c)"
  have run: "cache_inv mr_id c' \<and> cache_stored_at mr_id (mr_id x) c' = Some t"
    unfolding assms(7) cache_run_def
    using assms(4,5) received_store.inv_insert [OF assms(1,2)]
      received_store.not_after_insert [OF assms(2)] received_store.accepted_is_stored [OF assms(1,3)]
    by (intro received_store.run_keeps) simp_all
  have "\<not> fst (cache_insert mr_id u y c')"
    unfolding assms(7) cache_run_def
    by (intro received_store.run_refuses assms) simp_all
  with run assms(6) received_store.expired_accepts [of c' y t since u] show ?thesis by simp
qed

theorem cache_refuses_duplicates_witness:
  "\<exists>x y ops c. x \<noteq> y \<and> c = cache_run mr_id ops (snd (cache_insert mr_id 5 x cache_new)) \<and>
     length ops = 3 \<and> \<not> fst (cache_insert mr_id 9 y c) \<and>
     fst (cache_insert mr_id 9 y (remove_older_than mr_id 5 c))"
proof -
  define x where "x = MessageRecord 1 3 (PeerId [7]) [1, 2]"
  define y where "y = MessageRecord 1 1 (PeerId [8]) [1, 2]"
  define ops where "ops = [InsertAt 6 (MessageRecord 2 0 (PeerId [8]) []), ExpireTo 4, InsertAt 8 y]"
  define c where "c = cache_run mr_id ops (snd (cache_insert mr_id 5 x cache_new))"
  have "\<not> fst (cache_insert mr_id 9 y c) \<and>
      ((5::instant) \<le> 5 \<longrightarrow> fst (cache_insert mr_id 9 y (remove_older_than mr_id 5 c)))"
    by (rule cache_refuses_duplicates [OF _ _ _ _ _ _ c_def])
      (simp_all add: x_def y_def ops_def cache_insert_accepts)
  moreover have "length ops = 3" "x \<noteq> y" by (simp_all add: ops_def x_def y_def)
  ultimately show ?thesis using c_def by blast
qed

text \<open>
  C23. The cache of a topic refines a timed map. After any run of insertions in clock order and expiries, what it
  answers is what the abstract map says: an id is found exactly when it is mapped, the message found is
  the best one offered since the id was accepted, and the next message is accepted exactly when its id is
  not mapped.
\<close>

theorem cache_refines_timed_map:
  assumes "ops_from t ops" and "c = cache_run mr_id ops cache_new"
    and "m = foldl (timed_map_step mr_id) Map.empty ops"
  shows "cache_get k c = map_option snd (m k) \<and> cache_stored_at mr_id k c = map_option fst (m k) \<and>
    (fst (cache_insert mr_id u x c) \<longleftrightarrow> m (mr_id x) = None)"
proof -
  have run: "cache_inv mr_id c \<and> store_abs (cache_stored_at mr_id) cache_get c =
      foldl (timed_map_step mr_id) (store_abs (cache_stored_at mr_id) cache_get cache_new) ops"
    unfolding assms(2) cache_run_def using assms(1) by (intro received_store.run_refines) simp_all
  have "store_abs (cache_stored_at mr_id) cache_get cache_new = Map.empty"
    by (simp add: store_abs_def cache_stored_at_def cache_new_def)
  with run assms(3) have m: "store_abs (cache_stored_at mr_id) cache_get c = m" by simp
  have look: "cache_get k c = map_option snd (m k)" for k
    using received_store.abs_look [of c k] run m by simp
  moreover have "cache_stored_at mr_id k c = map_option fst (m k)"
    using received_store.abs_stored [of c k] run m by simp
  ultimately show ?thesis by (simp add: cache_insert_accepts look)
qed

theorem cache_refines_timed_map_witness:
  "\<exists>m. m = foldl (timed_map_step mr_id) Map.empty
       [InsertAt 1 (MessageRecord 1 3 (PeerId [7]) [1]), InsertAt 2 (MessageRecord 1 2 (PeerId [8]) [1]), ExpireTo 0] \<and>
     cache_get 1 (cache_run mr_id
       [InsertAt 1 (MessageRecord 1 3 (PeerId [7]) [1]), InsertAt 2 (MessageRecord 1 2 (PeerId [8]) [1]), ExpireTo 0]
       cache_new) = Some (MessageRecord 1 2 (PeerId [8]) [1])"
proof -
  let ?ops = "[InsertAt 1 (MessageRecord 1 3 (PeerId [7]) [1]), InsertAt 2 (MessageRecord 1 2 (PeerId [8]) [1]), ExpireTo 0]"
  define m where "m = foldl (timed_map_step mr_id) Map.empty ?ops"
  have "ops_from 0 ?ops" by simp
  from cache_refines_timed_map [OF this refl m_def, of 1] have
    "cache_get 1 (cache_run mr_id ?ops cache_new) = map_option snd (m 1)" by blast
  moreover have "m 1 = Some (1, MessageRecord 1 2 (PeerId [8]) [1])"
    by (simp add: m_def hop_order)
  ultimately show ?thesis using m_def by simp
qed

subsection \<open>Time ranges\<close>

lemma cmp_instant_le: "cmp_instant a t \<le> Equal \<longleftrightarrow> a \<le> t" "Equal \<le> cmp_instant a t \<longleftrightarrow> t \<le> a"
  by (auto simp: cmp_instant_def less_eq_ordering_def)

lemma time_position_splits:
  assumes "sorted (map timed_time es)"
  shows "time_position t es \<le> length es"
    and "j < time_position t es \<Longrightarrow> timed_time (es ! j) \<le> t"
    and "j < length es \<Longrightarrow> time_position t es \<le> j \<Longrightarrow> t \<le> timed_time (es ! j)"
proof -
  have sorted: "sorted (map (\<lambda>x. cmp_instant (timed_time x) t) es)"
    using assms unfolding sorted_map by (rule sorted_wrt_mono_rel [rotated]) (rule cmp_instant_mono)
  note split = std_search.position_splits [OF sorted, OF time_position_def]
  then show "time_position t es \<le> length es" by simp
  show "timed_time (es ! j) \<le> t" if "j < time_position t es"
    using split that by (simp add: cmp_instant_le)
  show "t \<le> timed_time (es ! j)" if "j < length es" "time_position t es \<le> j"
    using split that by (simp add: cmp_instant_le)
qed

lemma time_position_mono:
  assumes "sorted (map timed_time es)" and "t0 \<le> t1"
  shows "time_position t0 es \<le> time_position t1 es"
proof (rule ccontr)
  assume less: "\<not> ?thesis"
  then have "t0 \<noteq> t1" by auto
  with less assms time_position_splits(1) [OF assms(1), of t0]
    time_position_splits(2) [OF assms(1), of "time_position t1 es" t0]
    time_position_splits(3) [OF assms(1), of "time_position t1 es" t1]
  show False by simp
qed

lemma take_between: "p \<le> q \<Longrightarrow> es = take p es @ take (q - p) (drop p es) @ drop q es"
  by (metis append_take_drop_id drop_drop le_add_diff_inverse2)

lemma iter_range_parts:
  assumes "cache_inv key c" and "t0 \<le> t1"
  obtains before mid after where "ec_by_time c = before @ mid @ after"
    "iter_range t0 t1 c = Inr (map timed_value mid)"
    "\<forall>e \<in> set before. timed_time e \<le> t0"
    "\<forall>e \<in> set mid. t0 \<le> timed_time e \<and> timed_time e \<le> t1"
    "\<forall>e \<in> set after. t1 \<le> timed_time e"
proof
  let ?es = "ec_by_time c" and ?p = "time_position t0 (ec_by_time c)"
    and ?q = "time_position t1 (ec_by_time c)"
  have sorted: "sorted (map timed_time ?es)" using assms(1) by (simp add: cache_inv_def)
  note splits = time_position_splits [OF sorted]
  have pq: "?p \<le> ?q" using time_position_mono [OF sorted assms(2)] .
  show "?es = take ?p ?es @ take (?q - ?p) (drop ?p ?es) @ drop ?q ?es" by (rule take_between [OF pq])
  show "iter_range t0 t1 c = Inr (map timed_value (take (?q - ?p) (drop ?p ?es)))"
    using pq by (simp add: iter_range_def Let_def)
  show "\<forall>e \<in> set (take ?p ?es). timed_time e \<le> t0"
    using splits(2) by (auto simp: in_set_conv_nth)
  show "\<forall>e \<in> set (take (?q - ?p) (drop ?p ?es)). t0 \<le> timed_time e \<and> timed_time e \<le> t1"
    using splits(2) [of _ t1] splits(3) [of _ t0] by (auto simp: in_set_conv_nth)
  show "\<forall>e \<in> set (drop ?q ?es). t1 \<le> timed_time e"
    using splits(3) [of _ t1] by (auto simp: in_set_conv_nth)
qed

lemma iter_range_backwards:
  assumes "cache_inv key c" and "e \<in> set (ec_by_time c)" and "t1 < timed_time e" and "timed_time e < t0"
  shows "iter_range t0 t1 c = Inl Slice_Range"
proof -
  have sorted: "sorted (map timed_time (ec_by_time c))" using assms(1) by (simp add: cache_inv_def)
  from assms(2) obtain j where j: "j < length (ec_by_time c)" "ec_by_time c ! j = e"
    by (auto simp: in_set_conv_nth)
  with assms(3,4) time_position_splits(2) [OF sorted, of j t1] time_position_splits(3) [OF sorted, of j t0]
  have "time_position t1 (ec_by_time c) < time_position t0 (ec_by_time c)"
    by (meson leD leI order.trans less_le_trans)
  then show ?thesis by (simp add: iter_range_def Let_def)
qed

text \<open>What a range answers holds every entry strictly between the bounds, no key twice.\<close>

lemma iter_range_contains:
  assumes "cache_inv key c" and "e \<in> set (ec_by_time c)" and "t0 < timed_time e" and "timed_time e < t1"
    and "iter_range t0 t1 c = Inr xs"
  shows "timed_value e \<in> set xs"
proof -
  have "t0 \<le> t1" using assms(3,4) by simp
  with assms(1) obtain before mid after where
    parts: "ec_by_time c = before @ mid @ after" "iter_range t0 t1 c = Inr (map timed_value mid)"
      "\<forall>e \<in> set before. timed_time e \<le> t0"
      "\<forall>e \<in> set mid. t0 \<le> timed_time e \<and> timed_time e \<le> t1"
      "\<forall>e \<in> set after. t1 \<le> timed_time e"
    by (rule iter_range_parts)
  have "e \<notin> set before" using parts(3) assms(3) leD by blast
  moreover have "e \<notin> set after" using parts(5) assms(4) leD by blast
  ultimately have "e \<in> set mid" using assms(2) by (simp add: parts(1))
  moreover have "xs = map timed_value mid" using assms(5) parts(2) by simp
  ultimately show ?thesis by simp
qed

lemma iter_range_wf:
  assumes "cache_inv key c" and "iter_range t0 t1 c = Inr xs"
  shows "hs_wf key xs"
proof -
  from assms(2) obtain n m where "xs = map timed_value (take n (drop m (ec_by_time c)))"
    by (auto simp: iter_range_def Let_def split: if_splits)
  moreover have "distinct (map (entry_key key) (ec_by_time c))"
    using assms(1) by (simp add: cache_inv_def hs_wf_def)
  then have "distinct (take n (drop m (map (entry_key key) (ec_by_time c))))" by simp
  ultimately show ?thesis
    by (simp add: hs_wf_def take_map drop_map comp_def entry_key_def [abs_def])
qed

lemma cache_get_key:
  assumes "cache_inv key c" and "cache_get k c = Some x"
  shows "key x = k"
proof -
  from assms obtain d where d: "ec_data c k = Some d" "x = timed_value d" by (auto simp: cache_get_def)
  with assms(1) have "k \<in> hs_keys (entry_key key) (ec_by_time c)" by (auto simp: cache_inv_def)
  with assms(1) d show ?thesis by (auto simp: cache_inv_def hs_keys_def entry_key_def)
qed

text \<open>
  C25. A time range is answered without panic when its bounds are in order, and the answer is a
  contiguous part of the queue: everything before it is at or before the start, everything after it at or
  after the end, and every item of it within the bounds. With an entry strictly between bounds given in
  the wrong order the call panics.
\<close>

theorem iter_range_spec:
  assumes "cache_inv key c"
  shows "(t0 \<le> t1 \<longrightarrow> (\<exists>before mid after. ec_by_time c = before @ mid @ after \<and>
           iter_range t0 t1 c = Inr (map timed_value mid) \<and>
           (\<forall>e \<in> set before. timed_time e \<le> t0) \<and>
           (\<forall>e \<in> set mid. t0 \<le> timed_time e \<and> timed_time e \<le> t1) \<and>
           (\<forall>e \<in> set after. t1 \<le> timed_time e))) \<and>
    ((\<exists>e \<in> set (ec_by_time c). t1 < timed_time e \<and> timed_time e < t0) \<longrightarrow>
       iter_range t0 t1 c = Inl Slice_Range)"
proof (intro conjI impI)
  assume "t0 \<le> t1"
  from iter_range_parts [OF assms this]
  show "\<exists>before mid after. ec_by_time c = before @ mid @ after \<and>
      iter_range t0 t1 c = Inr (map timed_value mid) \<and> (\<forall>e \<in> set before. timed_time e \<le> t0) \<and>
      (\<forall>e \<in> set mid. t0 \<le> timed_time e \<and> timed_time e \<le> t1) \<and> (\<forall>e \<in> set after. t1 \<le> timed_time e)"
    by (metis (lifting))
qed (auto dest: iter_range_backwards [OF assms])

theorem iter_range_spec_witness:
  "\<exists>x mid. let c = snd (cache_insert mr_id 5 x cache_new) in
     iter_range 4 6 c = Inr (map timed_value mid) \<and> iter_range 6 4 c = Inl Slice_Range"
proof -
  define x where "x = MessageRecord 1 3 (PeerId [7]) [1, 2]"
  define c where "c = snd (cache_insert mr_id 5 x cache_new)"
  have inv: "cache_inv mr_id c" by (simp add: c_def cache_insert_inv)
  have "Timed x 5 \<in> set (ec_by_time c)" by (simp add: c_def cache_insert_def cache_new_def Let_def)
  with iter_range_spec [OF inv, of 6 4] have "iter_range 6 4 c = Inl Slice_Range" by force
  moreover from iter_range_spec [OF inv, of 4 6]
  have "\<exists>mid. iter_range 4 6 c = Inr (map timed_value mid)" by auto
  ultimately show ?thesis unfolding Let_def c_def by blast
qed

lemma iter_range_by_time: "ec_by_time c' = ec_by_time c \<Longrightarrow> iter_range t0 t1 c' = iter_range t0 t1 c"
  by (simp add: iter_range_def Let_def)

lemma iter_range_elements:
  "iter_range t0 t1 c = Inr xs \<Longrightarrow> set xs \<subseteq> timed_value ` set (ec_by_time c)"
  by (auto simp: iter_range_def Let_def split: if_splits dest!: in_set_takeD in_set_dropD)

text \<open>
  A copy of a known message with fewer hops replaces the cached one for \<open>get\<close>, but every time
  range still answers from the queue as before, so no range ever yields the better copy.
\<close>

theorem better_copy_never_ranged:
  assumes "cache_inv key c" and "cache_get (key x) c = Some y" and "x < y"
    and "c' = snd (cache_insert key t x c)"
  shows "cache_get (key x) c' = Some x \<and> iter_range t0 t1 c' = iter_range t0 t1 c \<and>
    (\<forall>xs. iter_range t0 t1 c' = Inr xs \<longrightarrow> x \<notin> set xs)"
proof -
  from assms(2) obtain d where d: "ec_data c (key x) = Some d" "timed_value d = y"
    by (auto simp: cache_get_def)
  with assms(3,4) have by_time: "ec_by_time c' = ec_by_time c"
    by (simp add: cache_insert_def Let_def)
  have "x \<noteq> timed_value e" if "e \<in> set (ec_by_time c)" for e
  proof
    assume "x = timed_value e"
    with assms(1) d that have "y = x \<or> y < x" by (auto simp: cache_inv_def entry_key_def)
    with assms(3) show False by (auto dest: order.asym)
  qed
  then have "x \<notin> set xs" if "iter_range t0 t1 c = Inr xs" for xs
    using iter_range_elements [OF that] by auto
  moreover have "cache_get (key x) c' = Some x"
    using assms(2-4) by (simp add: cache_get_insert)
  ultimately show ?thesis using iter_range_by_time [OF by_time] by simp
qed

theorem better_copy_never_ranged_witness:
  "\<exists>x y. let c = snd (cache_insert mi_id 5 y cache_new) in
     cache_get 1 (snd (cache_insert mi_id 6 x c)) = Some x \<and>
     iter_range 4 7 (snd (cache_insert mi_id 6 x c)) = iter_range 4 7 c"
proof -
  define x where "x = MessageInfo 1 2 (PeerId [7])"
  define y where "y = MessageInfo 1 5 (PeerId [8])"
  define c where "c = snd (cache_insert mi_id 5 y cache_new)"
  have "cache_get (mi_id x) (snd (cache_insert mi_id 6 x c)) = Some x \<and>
     iter_range 4 7 (snd (cache_insert mi_id 6 x c)) = iter_range 4 7 c \<and>
     (\<forall>xs. iter_range 4 7 (snd (cache_insert mi_id 6 x c)) = Inr xs \<longrightarrow> x \<notin> set xs)"
    by (rule better_copy_never_ranged [where y = y])
      (simp_all add: c_def x_def y_def cache_insert_inv cache_get_insert hop_order)
  then have "cache_get 1 (snd (cache_insert mi_id 6 x c)) = Some x \<and>
     iter_range 4 7 (snd (cache_insert mi_id 6 x c)) = iter_range 4 7 c"
    by (simp add: x_def)
  then show ?thesis unfolding Let_def c_def by blast
qed

end
