(* ===== verification/PlumTree.thy ===== *)
theory PlumTree
  imports Cache_Properties Config Environment Event_Queue
begin

section \<open>PlumTree: the epidemic broadcast tree of one topic\<close>

text \<open>
  \<open>src/src/network/episub/tree.rs\<close>. One definition per method of \<open>PlumTree\<close>, in the order of the file;
  the state is the record \<open>plumtree\<close>. A method that reads the clock takes its readings from a
  \<open>clock\<close>, or the one reading as an instant. A method that can panic returns a sum. \<open>HashSet\<close>s
  of peers are lists in iteration order; the set and the map that \<open>repair_tree\<close> builds are iterated
  in an order drawn from the call's entropy.
\<close>

record plumtree =
  pt_topic :: string
  pt_local_node :: peer_id
  pt_lazy :: "peer_id list"
  pt_eager :: "peer_id list"
  pt_last_tick :: instant
  pt_config :: config
  pt_observed :: "(u64, message_info) expiring_cache"
  pt_received :: "(u64, message_record) expiring_cache"
  pt_out_events :: "action list"

definition new_tree :: "string \<Rightarrow> config \<Rightarrow> peer_id \<Rightarrow> instant \<Rightarrow> plumtree" where
  "new_tree topic config local_node now =
     \<lparr>pt_topic = topic, pt_local_node = local_node, pt_lazy = [], pt_eager = [], pt_last_tick = now,
      pt_config = config, pt_observed = cache_new, pt_received = cache_new, pt_out_events = []\<rparr>"

definition pt_push :: "action list \<Rightarrow> plumtree \<Rightarrow> plumtree" where
  "pt_push es s = s\<lparr>pt_out_events := pt_out_events s @ es\<rparr>"

definition pt_notify :: "plumtree \<Rightarrow> rpc_action \<Rightarrow> peer_id \<Rightarrow> action" where
  "pt_notify s a p = NotifyHandler p (rpc_of (pt_topic s) a)"

subsection \<open>Membership\<close>

definition inject_neighbor_up :: "peer_id \<Rightarrow> plumtree \<Rightarrow> plumtree" where
  "inject_neighbor_up peer s = s\<lparr>pt_eager := hs_insert id peer (pt_eager s)\<rparr>"

definition inject_neighbor_down :: "peer_id \<Rightarrow> plumtree \<Rightarrow> plumtree" where
  "inject_neighbor_down peer s =
     s\<lparr>pt_eager := hs_remove id peer (pt_eager s), pt_lazy := hs_remove id peer (pt_lazy s)\<rparr>"

definition inject_prune :: "peer_id \<Rightarrow> plumtree \<Rightarrow> plumtree" where
  "inject_prune peer s =
     s\<lparr>pt_eager := hs_remove id peer (pt_eager s), pt_lazy := hs_insert id peer (pt_lazy s)\<rparr>"

subsection \<open>Messages\<close>

definition publish_message :: "instant \<Rightarrow> u64 \<Rightarrow> bytes \<Rightarrow> plumtree \<Rightarrow> plumtree" where
  "publish_message now i payload s =
     (case cache_get i (pt_received s) of
        Some msg \<Rightarrow> s
      | None \<Rightarrow>
          (case cache_get i (pt_observed s) of
             Some msg \<Rightarrow> s
           | None \<Rightarrow>
               let message = MessageRecord i 1 (pt_local_node s) payload;
                   s = pt_push (map (pt_notify s (message_of_record message)) (pt_eager s)) s
               in s\<lparr>pt_received :=
                      snd (cache_insert mr_id now (MessageRecord i 0 (pt_local_node s) payload)
                             (pt_received s))\<rparr>))"

definition inject_message ::
  "zstd \<Rightarrow> instant \<Rightarrow> peer_id \<Rightarrow> u64 \<Rightarrow> u32 \<Rightarrow> bytes \<Rightarrow> plumtree \<Rightarrow> panic + plumtree" where
  "inject_message z now peer i hop payload s =
     (let (is_new, received) =
            cache_insert mr_id now (MessageRecord i hop peer payload) (pt_received s);
          s = s\<lparr>pt_received := received\<rparr>
      in if is_new then
           on_ok (if enable_compression (pt_config s) then
                    (case decode_all z payload of None \<Rightarrow> Inl Unwrap_Err | Some out \<Rightarrow> Inr out)
                  else Inr payload)
             (\<lambda>out.
                let s = pt_push [GenerateEvent (EvMessage (pt_topic s) i out)] s
                in Inr (pt_push (map (pt_notify s (Message i (hop + 1) payload))
                                   (filter (\<lambda>p. p \<noteq> peer) (pt_eager s))) s))
         else if optimize_sender_tree (pt_config s) then
           Inr (if hs_contains id peer (pt_eager s) then
                  let s = inject_prune peer s in pt_push [pt_notify s Prune peer] s
                else s)
         else Inr s)"

definition inject_ihave :: "instant \<Rightarrow> peer_id \<Rightarrow> u64 \<Rightarrow> u32 \<Rightarrow> plumtree \<Rightarrow> plumtree" where
  "inject_ihave now peer i hop s =
     s\<lparr>pt_observed := snd (cache_insert mi_id now (MessageInfo i hop peer) (pt_observed s))\<rparr>"

definition inject_graft :: "peer_id \<Rightarrow> u64 list \<Rightarrow> plumtree \<Rightarrow> plumtree" where
  "inject_graft peer ids s =
     (let s = s\<lparr>pt_lazy := hs_remove id peer (pt_lazy s), pt_eager := hs_insert id peer (pt_eager s)\<rparr>
      in pt_push (map (\<lambda>msg. pt_notify s (message_of_record msg) peer)
                    (List.map_filter (\<lambda>i. cache_get i (pt_received s)) ids)) s)"

subsection \<open>Periodic maintenance\<close>

text \<open>Clock readings 0 and 1 of the call are the bounds of the advertised range.\<close>

definition publish_ihaves :: "clock \<Rightarrow> plumtree \<Rightarrow> panic + plumtree" where
  "publish_ihaves clk s =
     on_ok (iter_range (clk 0 - int (lazy_push_window (pt_config s))) (clk 1) (pt_received s))
       (\<lambda>ms. let received = map (\<lambda>m. (mr_id m, mr_hop m)) ms
             in Inr (if received \<noteq> [] then
                       pt_push (map (pt_notify s (IHave received)) (pt_lazy s)) s
                     else s))"

definition prune_history :: "instant \<Rightarrow> plumtree \<Rightarrow> plumtree" where
  "prune_history now s =
     (let prune_cutoff = now - int (history_window (pt_config s))
      in s\<lparr>pt_observed := remove_older_than mi_id prune_cutoff (pt_observed s),
           pt_received := remove_older_than mr_id prune_cutoff (pt_received s)\<rparr>)"

text \<open>
  One round of the loop over the expected messages; \<open>grafts\<close> is the \<open>HashMap\<close> from a peer to the ids
  to request from it.
\<close>

definition graft_step ::
  "plumtree \<Rightarrow> (peer_id \<times> u64 list) list \<Rightarrow> message_info \<Rightarrow> (peer_id \<times> u64 list) list" where
  "graft_step s grafts observed =
     (case cache_get (mi_id observed) (pt_received s) of
        Some received \<Rightarrow>
          if hop_optimization_factor (pt_config s) \<le> saturating_sub (mr_hop received) (mi_hop observed)
             \<and> mi_hop observed \<noteq> 0 then
            (case map_of grafts (mi_sender observed) of
               None \<Rightarrow> grafts @ [(mi_sender observed, [])]
             | Some ids \<Rightarrow> grafts)
          else grafts
      | None \<Rightarrow>
          (case map_of grafts (mi_sender observed) of
             None \<Rightarrow> grafts @ [(mi_sender observed, [mi_id observed])]
           | Some ids \<Rightarrow> AList.update (mi_sender observed) (ids @ [mi_id observed]) grafts))"

definition repair_grafts :: "entropy \<Rightarrow> plumtree \<Rightarrow> message_info list \<Rightarrow> (peer_id \<times> u64 list) list" where
  "repair_grafts r s observed =
     foldl (graft_step s) [] (hash_iter r 0 (hs_collect mi_id observed))"

definition repair_tree :: "entropy \<Rightarrow> clock \<Rightarrow> plumtree \<Rightarrow> panic + plumtree" where
  "repair_tree r clk s =
     on_ok (iter_range (clk 0 - int (lazy_push_window (pt_config s)))
              (clk 1 - 2 * int (tick_frequency (pt_config s))) (pt_observed s))
       (\<lambda>observed.
          let grafts = repair_grafts r s observed;
              s = pt_push (map (\<lambda>(p, ids). pt_notify s (Graft ids) p) (hash_iter r 1 grafts)) s
          in Inr (prune_history (clk 2) s))"

definition pt_pop :: "plumtree \<Rightarrow> action poll \<times> plumtree" where
  "pt_pop s = (case pt_out_events s of
                 [] \<Rightarrow> (Pending, s)
               | e # es \<Rightarrow> (Ready e, s\<lparr>pt_out_events := es\<rparr>))"

interpretation tree_queue: event_queue pt_out_events "\<lambda>es s. s\<lparr>pt_out_events := es\<rparr>" pt_pop
  by unfold_locales (simp_all add: pt_pop_def)

text \<open>\<open>Future::poll\<close>; seven clock readings when the timer is due.\<close>

definition tree_timer :: "entropy \<Rightarrow> clock \<Rightarrow> plumtree \<Rightarrow> panic + plumtree" where
  "tree_timer r clk s =
     (if int (tick_frequency (pt_config s)) < duration_since (clk 0) (pt_last_tick s) then
        on_ok (publish_ihaves (clock_from clk 1) s)
          (\<lambda>s. on_ok (repair_tree r (clock_from clk 3) s)
             (\<lambda>s. Inr (s\<lparr>pt_last_tick := clk 6\<rparr>)))
      else Inr s)"

definition poll_tree :: "entropy \<Rightarrow> clock \<Rightarrow> plumtree \<Rightarrow> panic + action poll \<times> plumtree" where
  "poll_tree r clk s = on_ok (tree_timer r clk s) (\<lambda>s. Inr (pt_pop s))"

end
