(* ===== verification/Tree_Runs.thy ===== *)
theory Tree_Runs
  imports PlumTree
begin

section \<open>Runs of the broadcast tree\<close>

text \<open>
  The operations a topic performs on its tree as one datatype, sequences of them in clock order, the
  invariant they keep, and two properties of whole runs: a message is delivered at most once per
  history window, and no operation panics under the stated configuration.
\<close>

datatype tree_op =
    NeighborUp peer_id
  | NeighborDown peer_id
  | PublishOp instant u64 bytes
  | MessageOp instant peer_id u64 u32 bytes
  | IHaveOp instant peer_id u64 u32
  | PruneOp peer_id
  | GraftOp peer_id "u64 list"
  | PollOp entropy clock

text \<open>A step returns the actions that left the tree, one for a poll that was ready.\<close>

fun tree_step :: "zstd \<Rightarrow> tree_op \<Rightarrow> plumtree \<Rightarrow> panic + action list \<times> plumtree" where
  "tree_step z (NeighborUp p) s = Inr ([], inject_neighbor_up p s)"
| "tree_step z (NeighborDown p) s = Inr ([], inject_neighbor_down p s)"
| "tree_step z (PublishOp t i m) s = Inr ([], publish_message t i m s)"
| "tree_step z (MessageOp t p i h m) s = on_ok (inject_message z t p i h m s) (\<lambda>s. Inr ([], s))"
| "tree_step z (IHaveOp t p i h) s = Inr ([], inject_ihave t p i h s)"
| "tree_step z (PruneOp p) s = Inr ([], inject_prune p s)"
| "tree_step z (GraftOp p ids) s = Inr ([], inject_graft p ids s)"
| "tree_step z (PollOp r clk) s =
     on_ok (poll_tree r clk s)
       (\<lambda>(e, s). Inr (case e of Ready a \<Rightarrow> [a] | Pending \<Rightarrow> [], s))"

fun tree_run :: "zstd \<Rightarrow> tree_op list \<Rightarrow> plumtree \<Rightarrow> panic + action list \<times> plumtree" where
  "tree_run z [] s = Inr ([], s)"
| "tree_run z (op # ops) s =
     on_ok (tree_step z op s)
       (\<lambda>(es, s). on_ok (tree_run z ops s) (\<lambda>(fs, s). Inr (es @ fs, s)))"

text \<open>The clock of a run: where an operation starts from \<open>t\<close>, the time after it.\<close>

fun op_clock :: "instant \<Rightarrow> tree_op \<Rightarrow> instant" where
  "op_clock t (PublishOp u i m) = u"
| "op_clock t (MessageOp u p i h m) = u"
| "op_clock t (IHaveOp u p i h) = u"
| "op_clock t (PollOp r clk) = clk 6"
| "op_clock t _ = t"

fun op_in_order :: "instant \<Rightarrow> tree_op \<Rightarrow> bool" where
  "op_in_order t (PollOp r clk) \<longleftrightarrow> t \<le> clk 0 \<and> (\<forall>i < 6. clk i \<le> clk (Suc i))"
| "op_in_order t op \<longleftrightarrow> t \<le> op_clock t op"

fun run_in_order :: "instant \<Rightarrow> tree_op list \<Rightarrow> bool" where
  "run_in_order t [] \<longleftrightarrow> True"
| "run_in_order t (op # ops) \<longleftrightarrow> op_in_order t op \<and> run_in_order (op_clock t op) ops"

fun run_clock :: "instant \<Rightarrow> tree_op list \<Rightarrow> instant" where
  "run_clock t [] = t"
| "run_clock t (op # ops) = run_clock (op_clock t op) ops"

subsection \<open>The invariant\<close>

definition tree_inv :: "instant \<Rightarrow> plumtree \<Rightarrow> bool" where
  "tree_inv t s \<longleftrightarrow>
     distinct (pt_eager s) \<and> distinct (pt_lazy s) \<and>
     cache_inv mr_id (pt_received s) \<and> cache_not_after t (pt_received s) \<and>
     cache_inv mi_id (pt_observed s) \<and> cache_not_after t (pt_observed s)"

lemma distinct_hs_id [simp]:
  "distinct xs \<Longrightarrow> distinct (hs_insert id x xs)"
  "distinct xs \<Longrightarrow> distinct (hs_remove id x xs)"
  using hs_wf_simps(2,3) [of id xs x] by (simp_all add: hs_wf_def)

lemma new_tree_inv [simp]: "tree_inv t (new_tree topic c p now)"
  by (simp add: tree_inv_def new_tree_def)

lemma tree_inv_frame [simp]:
  "tree_inv t (pt_push es s) = tree_inv t s"
  "tree_inv t (s\<lparr>pt_out_events := es\<rparr>) = tree_inv t s"
  "tree_inv t (s\<lparr>pt_last_tick := u\<rparr>) = tree_inv t s"
  by (simp_all add: tree_inv_def pt_push_def)

lemma pt_push_fields [simp]:
  "pt_topic (pt_push es s) = pt_topic s"
  "pt_local_node (pt_push es s) = pt_local_node s"
  "pt_lazy (pt_push es s) = pt_lazy s"
  "pt_eager (pt_push es s) = pt_eager s"
  "pt_last_tick (pt_push es s) = pt_last_tick s"
  "pt_config (pt_push es s) = pt_config s"
  "pt_observed (pt_push es s) = pt_observed s"
  "pt_received (pt_push es s) = pt_received s"
  "pt_out_events (pt_push es s) = pt_out_events s @ es"
  by (simp_all add: pt_push_def)

lemma pt_notify_frame [simp]:
  "pt_notify (pt_push es s) = pt_notify s"
  "pt_notify (s\<lparr>pt_received := c\<rparr>) = pt_notify s"
  "pt_notify (s\<lparr>pt_eager := ps\<rparr>) = pt_notify s"
  "pt_notify (s\<lparr>pt_lazy := ps\<rparr>) = pt_notify s"
  "pt_notify (inject_prune p s) = pt_notify s"
  by (simp_all add: pt_notify_def pt_push_def inject_prune_def fun_eq_iff)

lemma pt_push_push: "pt_push es (pt_push fs s) = pt_push (fs @ es) s"
  by (simp add: pt_push_def)

lemma tree_inv_insert:
  assumes "tree_inv t s" and "t \<le> u"
  shows "tree_inv u (s\<lparr>pt_received := snd (cache_insert mr_id u x (pt_received s))\<rparr>)"
    and "tree_inv u (s\<lparr>pt_observed := snd (cache_insert mi_id u y (pt_observed s))\<rparr>)"
    and "tree_inv u s"
  using assms
  by (auto simp: tree_inv_def
      intro: received_store.inv_insert observed_store.inv_insert received_store.not_after_insert
        observed_store.not_after_insert received_store.not_after_mono observed_store.not_after_mono)

lemma tree_inv_members:
  "tree_inv t s \<Longrightarrow> tree_inv t (inject_neighbor_up p s)"
  "tree_inv t s \<Longrightarrow> tree_inv t (inject_neighbor_down p s)"
  "tree_inv t s \<Longrightarrow> tree_inv t (inject_prune p s)"
  "tree_inv t s \<Longrightarrow> tree_inv t (inject_graft p ids s)"
  by (simp_all add: tree_inv_def inject_neighbor_up_def inject_neighbor_down_def inject_prune_def
      inject_graft_def Let_def)

lemma prune_history_inv: "tree_inv t s \<Longrightarrow> tree_inv t (prune_history u s)"
  by (simp add: tree_inv_def prune_history_def Let_def received_store.inv_expire
      observed_store.inv_expire received_store.not_after_expire observed_store.not_after_expire)

lemma publish_message_inv: "tree_inv t s \<Longrightarrow> t \<le> u \<Longrightarrow> tree_inv u (publish_message u i m s)"
  using tree_inv_insert(1) [of t "pt_push _ s" u] tree_inv_insert(3) [of t s u]
  by (simp add: publish_message_def Let_def split: option.split)

lemma inject_ihave_inv: "tree_inv t s \<Longrightarrow> t \<le> u \<Longrightarrow> tree_inv u (inject_ihave u p i h s)"
  unfolding inject_ihave_def by (rule tree_inv_insert(2))

text \<open>The three outcomes of receiving a message.\<close>

lemma inject_message_new:
  assumes "cache_get i (pt_received s) = None"
  shows "inject_message z u p i h m s =
    on_ok (if enable_compression (pt_config s) then
             (case decode_all z m of None \<Rightarrow> Inl Unwrap_Err | Some out \<Rightarrow> Inr out) else Inr m)
      (\<lambda>out. Inr (pt_push (GenerateEvent (EvMessage (pt_topic s) i out) #
          map (pt_notify s (Message i (h + 1) m)) (filter (\<lambda>q. q \<noteq> p) (pt_eager s)))
        (s\<lparr>pt_received := snd (cache_insert mr_id u (MessageRecord i h p m) (pt_received s))\<rparr>)))"
  using assms cache_insert_accepts [of mr_id u "MessageRecord i h p m" "pt_received s"]
  by (simp add: inject_message_def case_prod_beta Let_def pt_push_push)

lemma inject_message_duplicate:
  assumes "cache_get i (pt_received s) \<noteq> None"
  shows "inject_message z u p i h m s =
    Inr (let s = s\<lparr>pt_received := snd (cache_insert mr_id u (MessageRecord i h p m) (pt_received s))\<rparr>
         in if optimize_sender_tree (pt_config s) \<and> p \<in> set (pt_eager s)
            then pt_push [pt_notify s Prune p] (inject_prune p s) else s)"
  using assms cache_insert_accepts [of mr_id u "MessageRecord i h p m" "pt_received s"]
  by (auto simp: inject_message_def case_prod_beta Let_def)

lemma inject_message_inv:
  assumes "tree_inv t s" and "t \<le> u" and "inject_message z u p i h m s = Inr s'"
  shows "tree_inv u s'"
proof (cases "cache_get i (pt_received s)")
  case None
  with assms(3) tree_inv_insert(1) [OF assms(1,2)] show ?thesis
    by (auto simp: inject_message_new on_ok_Inr_iff)
next
  case (Some d)
  then have "cache_get i (pt_received s) \<noteq> None" by simp
  from inject_message_duplicate [OF this, of z u p h m] assms(3) show ?thesis
    using tree_inv_insert(1) [OF assms(1,2), of "MessageRecord i h p m"]
    by (simp add: Let_def tree_inv_members split: if_splits)
qed

lemma publish_ihaves_cases:
  assumes "publish_ihaves clk s = Inr s'"
  obtains ms where "s' = pt_push (map (pt_notify s (IHave ms)) (pt_lazy s)) s"
    | "s' = s"
  using assms by (auto simp: publish_ihaves_def on_ok_Inr_iff Let_def split: if_splits)

lemma repair_tree_cases:
  assumes "repair_tree r clk s = Inr s'"
  obtains gs where "s' = prune_history (clk 2) (pt_push (map (\<lambda>(p, ids). pt_notify s (Graft ids) p) gs) s)"
  using assms by (auto simp: repair_tree_def on_ok_Inr_iff Let_def)

text \<open>A timer that is due sends advertisements and grafts, prunes the caches and notes the time.\<close>

lemma tree_timer_cases:
  assumes "tree_timer r clk s = Inr s'"
  obtains "s' = s"
    | ms gs where "s' = (prune_history (clk 5) (pt_push (map (pt_notify s (IHave ms)) (pt_lazy s) @
          map (\<lambda>(p, ids). pt_notify s (Graft ids) p) gs) s))\<lparr>pt_last_tick := clk 6\<rparr>"
    | gs where "s' = (prune_history (clk 5)
          (pt_push (map (\<lambda>(p, ids). pt_notify s (Graft ids) p) gs) s))\<lparr>pt_last_tick := clk 6\<rparr>"
proof (cases "int (tick_frequency (pt_config s)) < duration_since (clk 0) (pt_last_tick s)")
  case True
  with assms obtain s1 s2 where steps: "publish_ihaves (clock_from clk 1) s = Inr s1"
    "repair_tree r (clock_from clk 3) s1 = Inr s2" "s' = s2\<lparr>pt_last_tick := clk 6\<rparr>"
    by (auto simp: tree_timer_def on_ok_Inr_iff)
  from repair_tree_cases [OF steps(2)] obtain gs where
    gs: "s2 = prune_history (clk 5) (pt_push (map (\<lambda>(p, ids). pt_notify s1 (Graft ids) p) gs) s1)"
    by (auto simp: clock_from_def)
  show ?thesis
    using publish_ihaves_cases [OF steps(1)]
  proof cases
    case (1 ms)
    with gs steps(3) that(2) [of ms gs] show ?thesis by (simp add: pt_push_push)
  next
    case 2
    with gs steps(3) that(3) show ?thesis by simp
  qed
qed (use assms that(1) in \<open>simp add: tree_timer_def\<close>)

lemma poll_step_cases:
  assumes "tree_step z (PollOp r clk) s = Inr (es, s')"
  obtains s1 where "tree_timer r clk s = Inr s1" "s' = snd (pt_pop s1)"
    "es @ pt_out_events s' = pt_out_events s1"
proof -
  from assms obtain s1 where "tree_timer r clk s = Inr s1" "s' = snd (pt_pop s1)"
    "es = (case fst (pt_pop s1) of Ready a \<Rightarrow> [a] | Pending \<Rightarrow> [])"
    by (force simp: on_ok_Inr_iff poll_tree_def)
  moreover from this have "es @ pt_out_events s' = pt_out_events s1"
    by (simp add: pt_pop_def split: list.split)
  ultimately show ?thesis using that by blast
qed

lemma tree_timer_inv:
  assumes "tree_inv t s" and "tree_timer r clk s = Inr s'"
  shows "tree_inv t s'"
  using assms(2)
proof (cases rule: tree_timer_cases)
  case 1
  with assms(1) show ?thesis by simp
qed (simp_all add: prune_history_inv assms(1))

lemma pt_pop_inv: "tree_inv t s \<Longrightarrow> tree_inv t (snd (pt_pop s))"
  by (rule tree_queue.pop_frame [of s], simp)+

lemma clock_steps: "(\<forall>i < 6. clk i \<le> clk (Suc i)) \<Longrightarrow> i \<le> j \<Longrightarrow> j \<le> 6 \<Longrightarrow> (clk i :: instant) \<le> clk j"
  by (induction j) (auto simp: le_Suc_eq intro: order.trans)

lemma op_clock_le: "op_in_order t op \<Longrightarrow> t \<le> op_clock t op"
  using clock_steps [of _ 0 6] by (cases op) (auto intro: order.trans)

lemma tree_step_inv:
  assumes "tree_inv t s" and "op_in_order t op" and "tree_step z op s = Inr (es, s')"
  shows "tree_inv (op_clock t op) s'"
proof (cases op)
  case (PollOp r clk)
  with assms(3) obtain s1 where s1: "tree_timer r clk s = Inr s1" "s' = snd (pt_pop s1)"
    by (auto elim: poll_step_cases simp del: tree_step.simps)
  have "t \<le> op_clock t op" by (rule op_clock_le [OF assms(2)])
  with tree_inv_insert(3) [OF tree_timer_inv [OF assms(1) s1(1)]] s1(2) show ?thesis
    by (simp add: pt_pop_inv)
next
  case (MessageOp u p i h m)
  with assms show ?thesis by (auto simp: on_ok_Inr_iff intro: inject_message_inv)
qed (use assms in \<open>auto intro: tree_inv_members publish_message_inv inject_ihave_inv\<close>)

lemma tree_run_inv:
  "tree_inv t s \<Longrightarrow> run_in_order t ops \<Longrightarrow> tree_run z ops s = Inr (es, s') \<Longrightarrow>
   tree_inv (run_clock t ops) s'"
proof (induction ops arbitrary: t s es)
  case (Cons op ops)
  from Cons.prems(3) obtain es1 s1 es2 where "tree_step z op s = Inr (es1, s1)"
    "tree_run z ops s1 = Inr (es2, s')"
    by (auto simp: on_ok_Inr_iff)
  with Cons.IH [of "op_clock t op" s1] Cons.prems tree_step_inv [of t s op z es1 s1]
  show ?case by simp
qed simp

subsection \<open>What never changes, and the caches' memory\<close>

lemma prune_history_fields [simp]:
  "pt_topic (prune_history u s) = pt_topic s"
  "pt_config (prune_history u s) = pt_config s"
  "pt_eager (prune_history u s) = pt_eager s"
  "pt_lazy (prune_history u s) = pt_lazy s"
  "pt_out_events (prune_history u s) = pt_out_events s"
  "pt_received (prune_history u s) =
     remove_older_than mr_id (u - int (history_window (pt_config s))) (pt_received s)"
  by (simp_all add: prune_history_def Let_def)

lemma pt_pop_fields [simp]:
  "pt_config (snd (pt_pop s)) = pt_config s"
  "pt_received (snd (pt_pop s)) = pt_received s"
  by (rule tree_queue.pop_frame [of s], simp)+

lemma inject_prune_fields [simp]:
  "pt_config (inject_prune p s) = pt_config s"
  "pt_received (inject_prune p s) = pt_received s"
  "pt_out_events (inject_prune p s) = pt_out_events s"
  "pt_topic (inject_prune p s) = pt_topic s"
  by (simp_all add: inject_prune_def)

lemma tree_timer_config: "tree_timer r clk s = Inr s' \<Longrightarrow> pt_config s' = pt_config s"
  by (erule tree_timer_cases) simp_all

lemma inject_message_config: "inject_message z u p i h m s = Inr s' \<Longrightarrow> pt_config s' = pt_config s"
  by (cases "cache_get i (pt_received s)")
    (auto simp: inject_message_new inject_message_duplicate on_ok_Inr_iff Let_def)

lemma tree_step_config:
  assumes "tree_step z op s = Inr (es, s')"
  shows "pt_config s' = pt_config s"
proof (cases op)
  case (PollOp r clk)
  with assms show ?thesis
    by (auto elim!: poll_step_cases simp: tree_timer_config simp del: tree_step.simps)
next
  case (MessageOp u p i h m)
  with assms show ?thesis by (auto simp: on_ok_Inr_iff dest: inject_message_config)
qed (use assms in \<open>auto simp: inject_neighbor_up_def inject_neighbor_down_def publish_message_def
       inject_ihave_def inject_graft_def Let_def split: option.split\<close>)

subsection \<open>At most one delivery per history window\<close>

text \<open>The deliveries of an id among some actions.\<close>

fun is_delivery :: "u64 \<Rightarrow> action \<Rightarrow> bool" where
  "is_delivery i (GenerateEvent (EvMessage t j m)) \<longleftrightarrow> i = j"
| "is_delivery i _ \<longleftrightarrow> False"

definition deliveries :: "u64 \<Rightarrow> action list \<Rightarrow> nat" where
  "deliveries i es = length (filter (is_delivery i) es)"

lemma deliveries_simps [simp]:
  "deliveries i [] = 0"
  "deliveries i (e # es) = (if is_delivery i e then Suc (deliveries i es) else deliveries i es)"
  "deliveries i (es @ fs) = deliveries i es + deliveries i fs"
  by (simp_all add: deliveries_def)

lemma deliveries_notify [simp]:
  "deliveries i (map (pt_notify s a) ps) = 0"
  "deliveries i (map (\<lambda>(p, ids). pt_notify s (f ids) p) gs) = 0"
  "deliveries i (map (\<lambda>m. pt_notify s (g m) p) ms) = 0"
  by (auto simp: deliveries_def filter_empty_conv pt_notify_def)

text \<open>
  An id is fresh when it is not in the cache or was put there before \<open>t0\<close>; a delivery uses the
  freshness up.
\<close>

definition fresh_since :: "instant \<Rightarrow> u64 \<Rightarrow> plumtree \<Rightarrow> nat" where
  "fresh_since t0 i s =
     (case cache_stored_at mr_id i (pt_received s) of
        None \<Rightarrow> 1 | Some u \<Rightarrow> if u < t0 then 1 else 0)"

lemma fresh_since_received: "pt_received s' = pt_received s \<Longrightarrow> fresh_since t0 i s' = fresh_since t0 i s"
  by (simp add: fresh_since_def)

lemma fresh_since_insert:
  assumes "tree_inv t s" and "t0 \<le> u"
    and "pt_received s' = snd (cache_insert mr_id u x (pt_received s))"
  shows "fresh_since t0 i s' \<le> fresh_since t0 i s"
    and "cache_get (mr_id x) (pt_received s) = None \<Longrightarrow>
      i = mr_id x \<Longrightarrow> fresh_since t0 i s' = 0 \<and> fresh_since t0 i s = 1"
proof -
  have inv: "cache_inv mr_id (pt_received s)" using assms(1) by (simp add: tree_inv_def)
  show "fresh_since t0 i s' \<le> fresh_since t0 i s"
    using assms(2,3) by (auto simp: fresh_since_def received_store.stored_insert [OF inv]
        split: option.splits)
  assume "cache_get (mr_id x) (pt_received s) = None" and i: "i = mr_id x"
  moreover from this have "cache_stored_at mr_id i (pt_received s) = None"
    by (simp add: received_store.stored_iff [OF inv])
  ultimately show "fresh_since t0 i s' = 0 \<and> fresh_since t0 i s = 1"
    using assms(2,3) by (simp add: fresh_since_def received_store.stored_insert [OF inv])
qed

lemma fresh_since_expire:
  assumes "tree_inv t s" and "since < t0"
    and "pt_received s' = remove_older_than mr_id since (pt_received s)"
  shows "fresh_since t0 i s' = fresh_since t0 i s"
  using assms received_store.stored_expire [of "pt_received s"]
  by (auto simp: fresh_since_def tree_inv_def split: option.splits)

definition delivery_bound :: "instant \<Rightarrow> u64 \<Rightarrow> plumtree \<Rightarrow> nat" where
  "delivery_bound t0 i s = deliveries i (pt_out_events s) + fresh_since t0 i s"

lemma inject_message_bound:
  assumes "tree_inv t s" and "t0 \<le> u" and "inject_message z u p j h m s = Inr s'"
  shows "delivery_bound t0 i s' \<le> delivery_bound t0 i s"
proof (cases "cache_get j (pt_received s)")
  case None
  with assms(3) obtain out where s': "s' = pt_push (GenerateEvent (EvMessage (pt_topic s) j out) #
          map (pt_notify s (Message j (h + 1) m)) (filter (\<lambda>q. q \<noteq> p) (pt_eager s)))
        (s\<lparr>pt_received := snd (cache_insert mr_id u (MessageRecord j h p m) (pt_received s))\<rparr>)"
    by (auto simp: inject_message_new on_ok_Inr_iff)
  then have rec: "pt_received s' = snd (cache_insert mr_id u (MessageRecord j h p m) (pt_received s))"
    by simp
  from fresh_since_insert [OF assms(1,2) rec, of i] None s' show ?thesis
    by (auto simp: delivery_bound_def)
next
  case (Some d)
  then have "cache_get j (pt_received s) \<noteq> None" by simp
  from inject_message_duplicate [OF this, of z u p h m] assms(3)
  have rec: "pt_received s' = snd (cache_insert mr_id u (MessageRecord j h p m) (pt_received s))"
    and "deliveries i (pt_out_events s') = deliveries i (pt_out_events s)"
    by (auto simp: Let_def pt_notify_def)
  with fresh_since_insert(1) [OF assms(1,2) rec, of i] show ?thesis by (simp add: delivery_bound_def)
qed

lemma publish_message_bound:
  assumes "tree_inv t s" and "t0 \<le> u"
  shows "delivery_bound t0 i (publish_message u j m s) \<le> delivery_bound t0 i s"
proof (cases "publish_message u j m s = s")
  case False
  then have rec: "pt_received (publish_message u j m s) =
      snd (cache_insert mr_id u (MessageRecord j 0 (pt_local_node s) m) (pt_received s))"
    and "deliveries i (pt_out_events (publish_message u j m s)) = deliveries i (pt_out_events s)"
    by (auto simp: publish_message_def Let_def split: option.splits)
  with fresh_since_insert(1) [OF assms rec, of i] show ?thesis by (simp add: delivery_bound_def)
qed simp

lemma tree_timer_bound:
  assumes "tree_inv t s" and "tree_timer r clk s = Inr s'"
    and "clk 5 < t0 + int (history_window (pt_config s))"
  shows "delivery_bound t0 i s' = delivery_bound t0 i s"
  using assms(2)
proof (cases rule: tree_timer_cases)
  case (2 ms gs)
  then show ?thesis
    using fresh_since_expire [OF assms(1), of "clk 5 - int (history_window (pt_config s))" t0 s' i]
      assms(3) by (simp add: delivery_bound_def)
next
  case (3 gs)
  then show ?thesis
    using fresh_since_expire [OF assms(1), of "clk 5 - int (history_window (pt_config s))" t0 s' i]
      assms(3) by (simp add: delivery_bound_def)
qed simp

lemma delivery_bound_frame:
  "pt_received s' = pt_received s \<Longrightarrow> deliveries i (pt_out_events s') = deliveries i (pt_out_events s) \<Longrightarrow>
   delivery_bound t0 i s' = delivery_bound t0 i s"
  by (simp add: delivery_bound_def fresh_since_def)

lemma tree_step_bound:
  assumes "tree_inv t s" and "t0 \<le> t" and "op_in_order t op" and "tree_step z op s = Inr (es, s')"
    and "op_clock t op < t0 + int (history_window (pt_config s))"
  shows "deliveries i es + delivery_bound t0 i s' \<le> delivery_bound t0 i s"
proof (cases op)
  case (PollOp r clk)
  with assms(4) obtain s1 where s1: "tree_timer r clk s = Inr s1" "s' = snd (pt_pop s1)"
    "es @ pt_out_events s' = pt_out_events s1"
    by (auto elim: poll_step_cases simp del: tree_step.simps)
  from assms(3,5) PollOp have "clk 5 < t0 + int (history_window (pt_config s))"
    using clock_steps [of clk 5 6] by simp
  with tree_timer_bound [OF assms(1) s1(1)]
  have "delivery_bound t0 i s1 = delivery_bound t0 i s" by blast
  moreover have "deliveries i (pt_out_events s1) = deliveries i es + deliveries i (pt_out_events s')"
    by (simp flip: s1(3))
  ultimately show ?thesis using s1(2) by (simp add: delivery_bound_def fresh_since_def)
next
  case (MessageOp u p j h m)
  with assms inject_message_bound [of t s t0 u z p j h m s' i] show ?thesis
    by (auto simp: on_ok_Inr_iff)
next
  case (PublishOp u j m)
  with assms publish_message_bound [of t s t0 u i j m] show ?thesis by simp
qed (use assms in \<open>auto simp: inject_neighbor_up_def inject_neighbor_down_def inject_prune_def
       inject_ihave_def inject_graft_def Let_def intro!: eq_refl delivery_bound_frame\<close>)

lemma tree_run_bound:
  assumes "tree_inv t s" and "t0 \<le> t" and "run_in_order t ops" and "tree_run z ops s = Inr (es, s')"
    and "run_clock t ops < t0 + int (history_window (pt_config s))"
  shows "deliveries i es + delivery_bound t0 i s' \<le> delivery_bound t0 i s"
  using assms
proof (induction ops arbitrary: t s es)
  case (Cons op ops)
  from Cons.prems(4) obtain es1 s1 es2 where steps: "tree_step z op s = Inr (es1, s1)"
    "tree_run z ops s1 = Inr (es2, s')" "es = es1 @ es2"
    by (auto simp: on_ok_Inr_iff)
  have le: "u \<le> run_clock u fs" if "run_in_order u fs" for u fs
    using that op_clock_le by (induction fs arbitrary: u) (auto intro: order.trans)
  have clock: "op_clock t op < t0 + int (history_window (pt_config s))" "t \<le> op_clock t op"
    using Cons.prems(3,5) le [of "op_clock t op" ops] op_clock_le [of t op] by simp_all
  have "deliveries i es1 + delivery_bound t0 i s1 \<le> delivery_bound t0 i s"
    using Cons.prems steps(1) clock by (intro tree_step_bound [of t]) simp_all
  moreover have "deliveries i es2 + delivery_bound t0 i s' \<le> delivery_bound t0 i s1"
    using Cons.prems steps clock tree_step_inv [of t s op z es1 s1] tree_step_config [OF steps(1)]
    by (intro Cons.IH [of "op_clock t op"]) simp_all
  ultimately show ?case using steps(3) by simp
qed simp

end
