(* ===== verification/Tree_Properties.thy ===== *)
theory Tree_Properties
  imports Tree_Runs
begin

section \<open>What the broadcast tree guarantees\<close>

text \<open>
  The properties of PlumTree: delivery at most once, no panic under the stated configuration, what
  is sent on a first receipt, on a duplicate, on a graft and on a publication, which links a repair
  grafts, and what is advertised.
\<close>

subsection \<open>Runs\<close>

text \<open>The messages of a run can all be decoded, when the tree decodes them.\<close>

fun op_decodes :: "zstd \<Rightarrow> tree_op \<Rightarrow> bool" where
  "op_decodes z (MessageOp u p i h m) \<longleftrightarrow> decode_all z m \<noteq> None"
| "op_decodes z _ \<longleftrightarrow> True"

lemma iter_range_in_order:
  "cache_inv key c \<Longrightarrow> t0 \<le> t1 \<Longrightarrow> \<exists>xs. iter_range t0 t1 c = Inr xs"
  using time_position_mono by (auto simp: iter_range_def Let_def cache_inv_def not_less)

lemma tree_timer_no_panic:
  assumes "tree_inv t s" and "\<forall>i < 6. clk i \<le> clk (Suc i)"
    and "2 * tick_frequency (pt_config s) \<le> lazy_push_window (pt_config s)"
  shows "\<exists>s'. tree_timer r clk s = Inr s'"
proof -
  have clk: "clk 1 \<le> clk 2" "clk 3 \<le> clk 4"
    using clock_steps [OF assms(2), of 1 2] clock_steps [OF assms(2), of 3 4] by simp_all
  have "\<exists>xs. iter_range (clk 1 - int (lazy_push_window (pt_config s))) (clk 2) (pt_received s) = Inr xs"
    using assms(1) clk(1) by (intro iter_range_in_order [of mr_id]) (simp_all add: tree_inv_def)
  then obtain s1 where s1: "publish_ihaves (clock_from clk 1) s = Inr s1"
    by (auto simp: publish_ihaves_def clock_from_def numeral_2_eq_2)
  then have same: "pt_observed s1 = pt_observed s" "pt_config s1 = pt_config s"
    by (auto elim!: publish_ihaves_cases)
  have "clk 3 - int (lazy_push_window (pt_config s)) \<le> clk 4 - 2 * int (tick_frequency (pt_config s))"
    using assms(3) clk(2) by linarith
  then have "\<exists>xs. iter_range (clk 3 - int (lazy_push_window (pt_config s)))
      (clk 4 - 2 * int (tick_frequency (pt_config s))) (pt_observed s) = Inr xs"
    using assms(1) by (intro iter_range_in_order [of mi_id]) (simp_all add: tree_inv_def)
  then obtain s2 where "repair_tree r (clock_from clk 3) s1 = Inr s2"
    by (auto simp: repair_tree_def clock_from_def same Let_def)
  with s1 show ?thesis by (simp add: tree_timer_def)
qed

lemma tree_step_no_panic:
  assumes "tree_inv t s" and "op_in_order t op" and "op_decodes z op"
    and "2 * tick_frequency (pt_config s) \<le> lazy_push_window (pt_config s)"
  shows "\<exists>es s'. tree_step z op s = Inr (es, s')"
proof (cases op)
  case (PollOp r clk)
  with assms tree_timer_no_panic [of t s clk r] show ?thesis
    by (auto simp: poll_tree_def case_prod_beta)
next
  case (MessageOp u p i h m)
  with assms(3) show ?thesis
    by (cases "cache_get i (pt_received s)")
      (auto simp: inject_message_new inject_message_duplicate)
qed simp_all

lemma tree_run_Inr:
  "tree_inv t s \<Longrightarrow> run_in_order t ops \<Longrightarrow> \<forall>op \<in> set ops. op_decodes z op \<Longrightarrow>
   2 * tick_frequency (pt_config s) \<le> lazy_push_window (pt_config s) \<Longrightarrow>
   \<exists>es s'. tree_run z ops s = Inr (es, s')"
proof (induction ops arbitrary: t s)
  case (Cons op ops)
  then obtain es s1 where s1: "tree_step z op s = Inr (es, s1)"
    using tree_step_no_panic [of t s op z] by auto
  with Cons tree_step_inv [of t s op z es s1] tree_step_config [OF s1] show ?case by fastforce
qed simp

text \<open>A run for the concrete instances: a neighbour, a message, its duplicate, and a poll.\<close>

definition sample_tree :: plumtree where
  "sample_tree = new_tree ''t'' default_config (PeerId [1]) 0"

definition sample_run :: "tree_op list" where
  "sample_run = [NeighborUp (PeerId [2]), MessageOp 1 (PeerId [2]) 7 1 [40, 5],
     MessageOp 2 (PeerId [3]) 7 2 [40, 5], PollOp first_entropy (\<lambda>i. 5)]"

lemma sample_run_facts:
  "tree_inv 0 sample_tree" "run_in_order 0 sample_run" "run_clock 0 sample_run = 5"
  "\<forall>op \<in> set sample_run. op_decodes tag_zstd op"
  "2 * tick_frequency (pt_config sample_tree) \<le> lazy_push_window (pt_config sample_tree)"
  "(5::int) < 0 + int (history_window (pt_config sample_tree))"
  "pt_out_events sample_tree = []"
  by (simp add: sample_tree_def)
    (simp_all add: sample_run_def sample_tree_def new_tree_def default_config_def secs_def millis_def
      tag_zstd_def)

lemma sample_run_Inr: "\<exists>es s'. tree_run tag_zstd sample_run sample_tree = Inr (es, s')"
  using sample_run_facts by (intro tree_run_Inr)

text \<open>
  C9. At-most-once delivery. Over every run that stays within one history window of \<open>t0\<close>, the
  actions that leave the tree and those still queued hold at most one more delivery of an id than
  the queue held at the start, and none more when the id entered the cache at or after \<open>t0\<close>, by
  receipt or by publication.
\<close>

theorem delivered_at_most_once:
  assumes "tree_inv t s" and "t0 \<le> t" and "run_in_order t ops" and "tree_run z ops s = Inr (es, s')"
    and "run_clock t ops < t0 + int (history_window (pt_config s))"
  shows "deliveries i (es @ pt_out_events s') \<le> deliveries i (pt_out_events s) + 1 \<and>
    (\<forall>u. cache_stored_at mr_id i (pt_received s) = Some u \<longrightarrow> t0 \<le> u \<longrightarrow>
       deliveries i (es @ pt_out_events s') \<le> deliveries i (pt_out_events s))"
  using tree_run_bound [OF assms, of i]
  by (auto simp: delivery_bound_def fresh_since_def[of t0 i s] split: option.splits if_splits)

theorem delivered_at_most_once_witness:
  "\<exists>es s'. tree_run tag_zstd sample_run sample_tree = Inr (es, s') \<and>
     deliveries 7 (es @ pt_out_events s') \<le> 1"
proof -
  obtain es s' where run: "tree_run tag_zstd sample_run sample_tree = Inr (es, s')"
    using sample_run_Inr by blast
  with delivered_at_most_once [of 0 sample_tree 0 sample_run tag_zstd es s' 7] sample_run_facts
  show ?thesis by simp
qed



text \<open>
  The exact condition under which receiving a message panics: it is new, compression is enabled,
  and the payload chosen by the remote peer does not decompress.
\<close>

theorem inject_message_panics_iff:
  "inject_message z u p i h m s = Inl e \<longleftrightarrow>
     e = Unwrap_Err \<and> cache_get i (pt_received s) = None \<and> enable_compression (pt_config s) \<and>
     decode_all z m = None"
  by (cases "cache_get i (pt_received s)")
    (auto simp: inject_message_new inject_message_duplicate split: option.split)

subsection \<open>Dissemination\<close>

text \<open>
  First receipt. A message not in the cache is delivered once to the application, decompressed, and
  passed on unchanged with its hop count plus one (modulo 2 to the 32) to every eager peer except
  the one it came from, in that order behind what was queued; it is cached under the sender's hop
  count, and no peer changes place.
\<close>

theorem first_receipt_spec:
  assumes "cache_get i (pt_received s) = None"
    and "if enable_compression (pt_config s) then decode_all z m = Some out else out = m"
  shows "\<exists>s' es. inject_message z u p i h m s = Inr s' \<and>
    pt_out_events s' = pt_out_events s @ GenerateEvent (EvMessage (pt_topic s) i out) # es \<and>
    (\<forall>a. a \<in> set es \<longleftrightarrow> (\<exists>q \<in> set (pt_eager s). q \<noteq> p \<and>
        a = NotifyHandler q (rpc_of (pt_topic s) (Message i (h + 1) m)))) \<and>
    cache_get i (pt_received s') = Some (MessageRecord i h p m) \<and>
    (\<forall>j. j \<noteq> i \<longrightarrow> cache_get j (pt_received s') = cache_get j (pt_received s)) \<and>
    pt_eager s' = pt_eager s \<and> pt_lazy s' = pt_lazy s"
proof -
  define es where "es = map (pt_notify s (Message i (h + 1) m)) (filter (\<lambda>q. q \<noteq> p) (pt_eager s))"
  define s1 where "s1 = pt_push (GenerateEvent (EvMessage (pt_topic s) i out) # es)
      (s\<lparr>pt_received := snd (cache_insert mr_id u (MessageRecord i h p m) (pt_received s))\<rparr>)"
  have "inject_message z u p i h m s = Inr s1"
    using assms by (auto simp: inject_message_new s1_def es_def split: if_splits)
  moreover have "a \<in> set es \<longleftrightarrow> (\<exists>q \<in> set (pt_eager s). q \<noteq> p \<and>
        a = NotifyHandler q (rpc_of (pt_topic s) (Message i (h + 1) m)))" for a
    by (auto simp: es_def pt_notify_def)
  ultimately show ?thesis
    using assms(1) by (intro exI [of _ s1] exI [of _ es] conjI)
      (simp_all add: s1_def received_store.lookup_insert)
qed

theorem first_receipt_spec_witness:
  "\<exists>s'. inject_message tag_zstd 5 (PeerId [2]) 7 1 [40, 9] sample_tree = Inr s' \<and>
     cache_get 7 (pt_received s') = Some (MessageRecord 7 1 (PeerId [2]) [40, 9])"
  using first_receipt_spec [of 7 sample_tree tag_zstd "[40, 9]" "[9]" 5 "PeerId [2]" 1]
  by (auto simp: sample_tree_def new_tree_def default_config_def tag_zstd_def)

text \<open>
  Duplicates. A message whose id is cached is neither delivered nor passed on. With sender-tree
  optimisation an eager sender becomes lazy and is told so by a prune, nobody else is touched; without
  it nothing is sent. The cache keeps the copy with the fewest hops.
\<close>

theorem duplicate_receipt_spec:
  assumes "cache_get i (pt_received s) = Some d"
  shows "\<exists>s'. inject_message z u p i h m s = Inr s' \<and>
    pt_out_events s' = pt_out_events s @
      (if optimize_sender_tree (pt_config s) \<and> p \<in> set (pt_eager s)
       then [NotifyHandler p (rpc_of (pt_topic s) Prune)] else []) \<and>
    set (pt_eager s') = set (pt_eager s) - (if optimize_sender_tree (pt_config s) then {p} else {}) \<and>
    set (pt_eager s') \<union> set (pt_lazy s') = set (pt_eager s) \<union> set (pt_lazy s) \<and>
    cache_get i (pt_received s') = Some (if h < mr_hop d then MessageRecord i h p m else d)"
proof -
  have "cache_get i (pt_received s) \<noteq> None" using assms by simp
  from inject_message_duplicate [OF this, of z u p h m] assms show ?thesis
    by (auto simp: Let_def inject_prune_def pt_notify_def received_store.lookup_insert
        hop_order)
qed

theorem duplicate_receipt_spec_witness:
  "\<exists>s s' d. cache_get 7 (pt_received s) = Some d \<and> PeerId [2] \<in> set (pt_eager s) \<and>
     inject_message tag_zstd 6 (PeerId [2]) 7 1 [40, 9] s = Inr s' \<and>
     PeerId [2] \<notin> set (pt_eager s')"
proof -
  define s where "s = publish_message 1 7 [40, 9] (inject_neighbor_up (PeerId [2]) sample_tree)"
  have get: "cache_get 7 (pt_received s) = Some (MessageRecord 7 0 (PeerId [1]) [40, 9])"
    and eager: "PeerId [2] \<in> set (pt_eager s)" and opt: "optimize_sender_tree (pt_config s)"
    by (simp_all add: s_def publish_message_def inject_neighbor_up_def sample_tree_def new_tree_def
        Let_def received_store.lookup_insert default_config_def)
  with duplicate_receipt_spec [OF get, of tag_zstd 6 "PeerId [2]" 1 "[40, 9]"] show ?thesis
    by auto
qed

text \<open>
  Publication. A known id, received or only heard of, is refused and changes nothing. A new one is
  sent with hop count one to every eager peer, delivered to no local application, and cached with
  hop count zero under the local node, so that its echo is a duplicate.
\<close>

theorem publish_message_spec:
  "(cache_get i (pt_received s) \<noteq> None \<or> cache_get i (pt_observed s) \<noteq> None \<longrightarrow>
      publish_message u i m s = s) \<and>
   (cache_get i (pt_received s) = None \<and> cache_get i (pt_observed s) = None \<longrightarrow>
      (\<exists>es. pt_out_events (publish_message u i m s) = pt_out_events s @ es \<and>
         (\<forall>a. a \<in> set es \<longleftrightarrow> (\<exists>q \<in> set (pt_eager s).
             a = NotifyHandler q (rpc_of (pt_topic s) (Message i 1 m))))) \<and>
      cache_get i (pt_received (publish_message u i m s)) = Some (MessageRecord i 0 (pt_local_node s) m) \<and>
      (\<exists>s'. inject_message z u' p i h m' (publish_message u i m s) = Inr s' \<and>
         deliveries i (pt_out_events s') = deliveries i (pt_out_events s)))"
proof -
  define s1 where "s1 = publish_message u i m s"
  have known: "publish_message u i m s = s"
    if "cache_get i (pt_received s) \<noteq> None \<or> cache_get i (pt_observed s) \<noteq> None"
    using that by (auto simp: publish_message_def split: option.split)
  moreover have "(\<exists>es. pt_out_events s1 = pt_out_events s @ es \<and>
         (\<forall>a. a \<in> set es \<longleftrightarrow> (\<exists>q \<in> set (pt_eager s).
             a = NotifyHandler q (rpc_of (pt_topic s) (Message i 1 m))))) \<and>
      cache_get i (pt_received s1) = Some (MessageRecord i 0 (pt_local_node s) m) \<and>
      (\<exists>s'. inject_message z u' p i h m' s1 = Inr s' \<and>
         deliveries i (pt_out_events s') = deliveries i (pt_out_events s))"
    if fresh: "cache_get i (pt_received s) = None" "cache_get i (pt_observed s) = None"
  proof -
    have events: "pt_out_events s1 = pt_out_events s @ map (pt_notify s (Message i 1 m)) (pt_eager s)"
      using fresh by (simp add: s1_def publish_message_def Let_def message_of_record_def)
    have get: "cache_get i (pt_received s1) = Some (MessageRecord i 0 (pt_local_node s) m)"
      using fresh by (simp add: s1_def publish_message_def Let_def received_store.lookup_insert)
    then have "cache_get i (pt_received s1) \<noteq> None" by simp
    from inject_message_duplicate [OF this, of z u' p h m']
    have "\<exists>s'. inject_message z u' p i h m' s1 = Inr s' \<and>
         deliveries i (pt_out_events s') = deliveries i (pt_out_events s)"
      by (auto simp: Let_def pt_notify_def [of _ Prune] events)
    moreover have "a \<in> set (map (pt_notify s (Message i 1 m)) (pt_eager s)) \<longleftrightarrow>
        (\<exists>q \<in> set (pt_eager s). a = NotifyHandler q (rpc_of (pt_topic s) (Message i 1 m)))" for a
      by (auto simp: pt_notify_def)
    ultimately show ?thesis using events get by blast
  qed
  ultimately show ?thesis unfolding s1_def by blast
qed

theorem publish_message_spec_witness:
  "\<exists>s. s = publish_message 1 7 [40, 9] sample_tree \<and> publish_message 2 7 [40, 8] s = s \<and>
     cache_get 7 (pt_received s) = Some (MessageRecord 7 0 (PeerId [1]) [40, 9])"
proof -
  define s where "s = publish_message 1 7 [40, 9] sample_tree"
  have "cache_get 7 (pt_received sample_tree) = None" "cache_get 7 (pt_observed sample_tree) = None"
    "pt_local_node sample_tree = PeerId [1]"
    by (simp_all add: sample_tree_def new_tree_def)
  with publish_message_spec [of 7 sample_tree 1 "[40, 9]"]
  have get: "cache_get 7 (pt_received s) = Some (MessageRecord 7 0 (PeerId [1]) [40, 9])"
    by (simp add: s_def)
  with publish_message_spec [of 7 s 2 "[40, 8]"] have "publish_message 2 7 [40, 8] s = s" by simp
  with get show ?thesis using s_def by blast
qed

end
