(* ===== verification/Tree_Repair.thy ===== *)
theory Tree_Repair
  imports Tree_Properties
begin

section \<open>Advertisement and repair of the broadcast tree\<close>

text \<open>
  Lazy push: which messages are advertised to whom, which links a tick grafts and which ids it
  requests over them, and that a graft brings back the messages the other end still has.
\<close>

subsection \<open>The grafts of one tick\<close>

definition missing :: "plumtree \<Rightarrow> message_info \<Rightarrow> bool" where
  "missing s o' \<longleftrightarrow> cache_get (mi_id o') (pt_received s) = None"

text \<open>The message came here, but the announcer is closer to its origin by the configured factor.\<close>

definition better_path :: "plumtree \<Rightarrow> message_info \<Rightarrow> bool" where
  "better_path s o' \<longleftrightarrow> mi_hop o' \<noteq> 0 \<and>
     (\<exists>m. cache_get (mi_id o') (pt_received s) = Some m \<and>
        unat (hop_optimization_factor (pt_config s)) \<le> unat (mr_hop m) - unat (mi_hop o'))"

lemma graft_step_lookup:
  "map_of (graft_step s g o') p =
     (if p = mi_sender o' \<and> missing s o'
      then Some ((case map_of g p of None \<Rightarrow> [] | Some ids \<Rightarrow> ids) @ [mi_id o'])
      else if p = mi_sender o' \<and> better_path s o'
      then Some (case map_of g p of None \<Rightarrow> [] | Some ids \<Rightarrow> ids)
      else map_of g p)"
  by (auto simp: graft_step_def missing_def better_path_def word_le_nat_alt unat_saturating_sub
      map_add_def update_conv split: option.split)

lemma graft_step_keys: "distinct (map fst g) \<Longrightarrow> distinct (map fst (graft_step s g o'))"
  by (auto simp: graft_step_def distinct_update map_of_eq_None_iff split: option.split)

text \<open>What the loop leaves under a peer, for a list of announcements.\<close>

lemma graft_fold_lookup:
  "map_of (foldl (graft_step s) [] os) p =
     (if \<exists>x \<in> set os. mi_sender x = p \<and> (missing s x \<or> better_path s x)
      then Some (map mi_id (filter (\<lambda>x. mi_sender x = p \<and> missing s x) os)) else None)"
proof (induction os rule: rev_induct)
  case (snoc x xs)
  have "\<not> (missing s x \<and> better_path s x)" by (auto simp: missing_def better_path_def)
  with snoc show ?case by (auto simp: graft_step_lookup)
qed simp

lemma graft_fold_keys: "distinct (map fst (foldl (graft_step s) [] os))"
  by (rule foldl_preserves) (simp_all add: graft_step_keys)

lemma repair_grafts_lookup:
  assumes "hash_order_ok r" and "hs_wf mi_id observed"
  shows "map_of (repair_grafts r s observed) p =
     (if \<exists>x \<in> set observed. mi_sender x = p \<and> (missing s x \<or> better_path s x)
      then Some (map mi_id (filter (\<lambda>x. mi_sender x = p \<and> missing s x) (hash_iter r 0 observed)))
      else None)"
  unfolding repair_grafts_def hs_collect_distinct [OF assms(2)] graft_fold_lookup
  by (simp add: set_hash_iter [OF assms(1)])

text \<open>
  C26. The grafts of a tick. For announcements with distinct ids, a link is grafted exactly to the
  peers that announced a missing message or a path shorter by the configured factor; over it exactly
  the missing ids that this peer announced are requested, each once, and no id is requested from two
  peers.
\<close>

theorem repair_grafts_spec:
  assumes "hash_order_ok r" and "hs_wf mi_id observed"
  shows "(map_of (repair_grafts r s observed) p \<noteq> None \<longleftrightarrow>
        (\<exists>x \<in> set observed. mi_sender x = p \<and> (missing s x \<or> better_path s x))) \<and>
    (\<forall>ids. map_of (repair_grafts r s observed) p = Some ids \<longrightarrow> distinct ids \<and>
        set ids = mi_id ` {x \<in> set observed. mi_sender x = p \<and> missing s x} \<and>
        (\<forall>q ids'. q \<noteq> p \<longrightarrow> map_of (repair_grafts r s observed) q = Some ids' \<longrightarrow>
           set ids \<inter> set ids' = {}))"
proof -
  let ?g = "map_of (repair_grafts r s observed)" and ?wants = "\<lambda>p x. mi_sender x = p \<and> missing s x"
  have wf: "hs_wf mi_id (hash_iter r 0 observed)"
    using assms(2) by (simp add: hs_wf_hash_iter [OF assms(1)])
  have ids: "distinct ids \<and> set ids = mi_id ` {x \<in> set observed. ?wants p x}"
    if "?g p = Some ids" for p ids
  proof -
    from that have "ids = map mi_id (filter (?wants p) (hash_iter r 0 observed))"
      by (simp add: repair_grafts_lookup [OF assms] split: if_splits)
    with wf show ?thesis
      by (simp add: hs_wf_def distinct_map_filter_key set_hash_iter [OF assms(1)])
  qed
  have disjoint: "set ids \<inter> set ids' = {}" if "?g p = Some ids" "?g q = Some ids'" "q \<noteq> p" for q ids ids'
  proof (rule equals0I)
    fix i
    assume "i \<in> set ids \<inter> set ids'"
    with ids [OF that(1)] ids [OF that(2)] obtain x y where
      xy: "x \<in> set observed" "y \<in> set observed" "mi_id x = i" "mi_id y = i"
        "mi_sender x = p" "mi_sender y = q" by auto
    with entry_unique [OF assms(2) xy(1,2)] that(3) show False by simp
  qed
  have worthy: "?g p \<noteq> None \<longleftrightarrow> (\<exists>x \<in> set observed. mi_sender x = p \<and> (missing s x \<or> better_path s x))"
    by (simp add: repair_grafts_lookup [OF assms])
  show ?thesis
    by (intro conjI allI impI, fact worthy, erule ids [THEN conjunct1], erule ids [THEN conjunct2],
        erule disjoint)
qed

theorem repair_grafts_spec_witness:
  "map_of (repair_grafts first_entropy sample_tree [MessageInfo 7 2 (PeerId [2])]) (PeerId [2]) \<noteq> None"
  using repair_grafts_spec [of first_entropy "[MessageInfo 7 2 (PeerId [2])]" sample_tree "PeerId [2]"]
  by (simp add: entropy_okD [OF first_entropy_ok] missing_def sample_tree_def new_tree_def)

subsection \<open>Repair end to end\<close>

lemma repair_tree_queue:
  assumes "repair_tree r clk a = Inr a'"
    and "iter_range (clk 0 - int (lazy_push_window (pt_config a)))
           (clk 1 - 2 * int (tick_frequency (pt_config a))) (pt_observed a) = Inr xs"
  shows "pt_out_events a' = pt_out_events a @
           map (\<lambda>(p, ids). pt_notify a (Graft ids) p) (hash_iter r 1 (repair_grafts r a xs))"
    and "pt_received a' =
           remove_older_than mr_id (clk 2 - int (history_window (pt_config a))) (pt_received a)"
  using assms by (auto simp: repair_tree_def Let_def)

lemma graft_resends:
  assumes "cache_inv mr_id (pt_received b)" and "cache_get i (pt_received b) = Some m" and "i \<in> set ids"
  shows "NotifyHandler q (rpc_of (pt_topic b) (Message i (mr_hop m) (mr_payload m)))
    \<in> set (pt_out_events (inject_graft q ids b))"
proof -
  have "m \<in> set (List.map_filter (\<lambda>i. cache_get i (pt_received b)) ids)"
    using assms(2,3) by (force simp: List.map_filter_def)
  then have "pt_notify b (message_of_record m) q \<in> set (pt_out_events (inject_graft q ids b))"
    by (force simp: inject_graft_def Let_def)
  moreover have "message_of_record m = Message i (mr_hop m) (mr_payload m)"
    using cache_get_key [OF assms(1,2)] by (simp add: message_of_record_def)
  ultimately show ?thesis by (simp add: pt_notify_def)
qed

text \<open>
  C13. Repair end to end. Node \<open>a\<close> (whose id is \<open>q\<close>) heard of message \<open>i\<close> from peer \<open>p\<close> within the
  window of the tick and does not have it: the tick sends \<open>p\<close> a graft that requests \<open>i\<close>. When \<open>p\<close>,
  in state \<open>b\<close>, handles that graft with the message still cached, it makes \<open>q\<close> an eager peer again
  and sends the message; when \<open>a\<close> receives that, and can decode it, it delivers it to the application.
\<close>

theorem repair_recovers:
  assumes "hash_order_ok r" and "tree_inv t a" and "repair_tree r clk a = Inr a'"
    and "e \<in> set (ec_by_time (pt_observed a))" and "timed_value e = MessageInfo i h p"
    and "clk 0 - int (lazy_push_window (pt_config a)) < timed_time e"
    and "timed_time e < clk 1 - 2 * int (tick_frequency (pt_config a))"
    and "cache_get i (pt_received a) = None"
    and "tree_inv t' b" and "cache_get i (pt_received b) = Some m"
    and "decode_all z (mr_payload m) \<noteq> None"
  shows "\<exists>ids. NotifyHandler p (rpc_of (pt_topic a) (Graft ids)) \<in> set (pt_out_events a') \<and> i \<in> set ids \<and>
    (let b' = inject_graft q ids b
     in q \<in> set (pt_eager b') \<and> q \<notin> set (pt_lazy b') \<and>
        NotifyHandler q (rpc_of (pt_topic b) (Message i (mr_hop m) (mr_payload m))) \<in> set (pt_out_events b')) \<and>
    (\<exists>a''. inject_message z u p i (mr_hop m) (mr_payload m) a' = Inr a'' \<and>
       deliveries i (pt_out_events a'') = Suc (deliveries i (pt_out_events a')))"
proof -
  have inv: "cache_inv mi_id (pt_observed a)" "cache_inv mr_id (pt_received a)"
    "cache_inv mr_id (pt_received b)" using assms(2,9) by (simp_all add: tree_inv_def)
  from assms(3) obtain xs where xs: "iter_range (clk 0 - int (lazy_push_window (pt_config a)))
      (clk 1 - 2 * int (tick_frequency (pt_config a))) (pt_observed a) = Inr xs"
    by (auto simp: repair_tree_def on_ok_Inr_iff)
  note queue = repair_tree_queue [OF assms(3) xs]
  have heard: "MessageInfo i h p \<in> set xs" "missing a (MessageInfo i h p)"
    using iter_range_contains [OF inv(1) assms(4,6,7) xs] assms(5,8) by (simp_all add: missing_def)
  define ids where "ids = map mi_id (filter (\<lambda>x. mi_sender x = p \<and> missing a x) (hash_iter r 0 xs))"
  have "map_of (repair_grafts r a xs) p = Some ids"
    using heard unfolding ids_def repair_grafts_lookup [OF assms(1) iter_range_wf [OF inv(1) xs]] by force
  moreover have "i \<in> set ids"
    using heard by (force simp: ids_def set_hash_iter [OF assms(1)] image_iff)
  ultimately have ids: "map_of (repair_grafts r a xs) p = Some ids" "i \<in> set ids" .
  then have "(p, ids) \<in> set (hash_iter r 1 (repair_grafts r a xs))"
    by (simp add: set_hash_iter [OF assms(1)] map_of_SomeD)
  then have sent: "NotifyHandler p (rpc_of (pt_topic a) (Graft ids)) \<in> set (pt_out_events a')"
    by (force simp: queue(1) pt_notify_def)
  have "cache_get i (pt_received a') = None"
    using assms(8) received_store.lookup_expire [OF inv(2)]
    by (simp add: queue(2) split: option.split)
  then have "\<exists>a''. inject_message z u p i (mr_hop m) (mr_payload m) a' = Inr a'' \<and>
      deliveries i (pt_out_events a'') = Suc (deliveries i (pt_out_events a'))"
    using assms(11) by (auto simp: inject_message_new)
  with sent ids(2) graft_resends [OF inv(3) assms(10) ids(2)] show ?thesis
    by (intro exI [of _ ids]) (simp add: Let_def inject_graft_def)
qed

theorem repair_recovers_witness:
  "\<exists>a a' b ids. NotifyHandler (PeerId [2]) (rpc_of ''t'' (Graft ids)) \<in> set (pt_out_events a') \<and>
     repair_tree first_entropy (\<lambda>i. secs 1) a = Inr a' \<and> pt_out_events a = [] \<and> 7 \<in> set ids \<and>
     NotifyHandler (PeerId [1]) (rpc_of ''t'' (Message 7 0 [40, 9]))
       \<in> set (pt_out_events (inject_graft (PeerId [1]) ids b))"
proof -
  define a where "a = inject_ihave 100 (PeerId [2]) 7 2 sample_tree"
  define b where "b = publish_message 1 7 [40, 9] (new_tree ''t'' default_config (PeerId [2]) 0)"
  have inv: "tree_inv 100 a" "tree_inv 1 b"
    unfolding a_def b_def using sample_run_facts(1)
    by (auto intro: inject_ihave_inv publish_message_inv [of 0])
  have e: "Timed (MessageInfo 7 2 (PeerId [2])) 100 \<in> set (ec_by_time (pt_observed a))"
    and a: "cache_get 7 (pt_received a) = None" "pt_out_events a = []" "pt_topic a = ''t''"
      "pt_config a = default_config"
    by (simp_all add: a_def inject_ihave_def sample_tree_def new_tree_def cache_insert_def cache_new_def
        cache_get_def Let_def)
  have window: "secs 1 - int (lazy_push_window (pt_config a)) < 100"
    "100 < int (secs 1) - 2 * int (tick_frequency (pt_config a))"
    by (simp_all add: a(4) default_config_def secs_def millis_def)
  then have "\<exists>xs. iter_range (int (secs 1) - int (lazy_push_window (pt_config a)))
      (int (secs 1) - 2 * int (tick_frequency (pt_config a))) (pt_observed a) = Inr xs"
    using inv(1) by (intro iter_range_in_order [of mi_id]) (simp_all add: tree_inv_def)
  then obtain a' where a': "repair_tree first_entropy (\<lambda>i. int (secs 1)) a = Inr a'"
    by (auto simp: repair_tree_def Let_def)
  have b: "cache_get 7 (pt_received b) = Some (MessageRecord 7 0 (PeerId [2]) [40, 9])" "pt_topic b = ''t''"
    by (simp_all add: b_def publish_message_def new_tree_def Let_def received_store.lookup_insert)
  note repaired = repair_recovers [OF entropy_okD(4) [OF first_entropy_ok] inv(1) a' e _ _ _ a(1) inv(2) b(1),
      where h = 2 and p = "PeerId [2]" and z = tag_zstd and q = "PeerId [1]"]
  have "\<exists>ids. NotifyHandler (PeerId [2]) (rpc_of ''t'' (Graft ids)) \<in> set (pt_out_events a') \<and> 7 \<in> set ids \<and>
     NotifyHandler (PeerId [1]) (rpc_of ''t'' (Message 7 0 [40, 9]))
       \<in> set (pt_out_events (inject_graft (PeerId [1]) ids b))"
    using repaired window a(3) b(2) by (auto simp: Let_def tag_zstd_def)
  with a(2) a' show ?thesis by blast
qed

subsection \<open>Advertisement\<close>

text \<open>
  Lazy push. With the clock's readings in order, the call advertises to each lazy peer one list
  of ids and hop counts, and sends nothing to anyone else. Every message in the cache that was stored
  within the window before the call is in the list; with no message in the window nothing is sent.
\<close>

theorem publish_ihaves_spec:
  assumes "tree_inv t s" and "clk 0 \<le> clk 1"
  shows "\<exists>s' ms. publish_ihaves clk s = Inr s' \<and>
    pt_out_events s' = pt_out_events s @
      (if ms = [] then []
       else map (\<lambda>p. NotifyHandler p (rpc_of (pt_topic s) (IHave ms))) (pt_lazy s)) \<and>
    (\<forall>e \<in> set (ec_by_time (pt_received s)).
       clk 0 - int (lazy_push_window (pt_config s)) < timed_time e \<longrightarrow> timed_time e < clk 1 \<longrightarrow>
       (mr_id (timed_value e), mr_hop (timed_value e)) \<in> set ms) \<and>
    (\<forall>(i, h) \<in> set ms. \<exists>m. cache_get i (pt_received s) = Some m \<and> unat (mr_hop m) \<le> unat h)"
proof -
  have inv: "cache_inv mr_id (pt_received s)" using assms(1) by (simp add: tree_inv_def)
  let ?t0 = "clk 0 - int (lazy_push_window (pt_config s))"
  from iter_range_in_order [OF inv, of ?t0 "clk 1"] assms(2) obtain xs where
    xs: "iter_range ?t0 (clk 1) (pt_received s) = Inr xs" by auto
  define ms where "ms = map (\<lambda>m. (mr_id m, mr_hop m)) xs"
  define s' where "s' = (if ms \<noteq> [] then pt_push (map (pt_notify s (IHave ms)) (pt_lazy s)) s else s)"
  have "publish_ihaves clk s = Inr s'"
    using xs by (simp add: publish_ihaves_def s'_def ms_def Let_def)
  moreover have "pt_out_events s' = pt_out_events s @
      (if ms = [] then [] else map (\<lambda>p. NotifyHandler p (rpc_of (pt_topic s) (IHave ms))) (pt_lazy s))"
    by (simp add: s'_def pt_notify_def)
  moreover have "(mr_id (timed_value e), mr_hop (timed_value e)) \<in> set ms"
    if "e \<in> set (ec_by_time (pt_received s))" "?t0 < timed_time e" "timed_time e < clk 1" for e
    using iter_range_contains [OF inv that xs] by (force simp: ms_def)
  moreover have "\<exists>m. cache_get (mr_id x) (pt_received s) = Some m \<and> unat (mr_hop m) \<le> unat (mr_hop x)"
    if "x \<in> set xs" for x
  proof -
    from iter_range_elements [OF xs] that obtain e where
      e: "e \<in> set (ec_by_time (pt_received s))" "x = timed_value e" by auto
    with inv obtain d where "ec_data (pt_received s) (mr_id x) = Some d"
      "d = e \<or> timed_value d < timed_value e"
      by (auto simp: cache_inv_def entry_key_def)
    with e show ?thesis
      by (auto simp: cache_get_def hop_order word_less_nat_alt)
  qed
  then have "\<forall>(i, h) \<in> set ms. \<exists>m. cache_get i (pt_received s) = Some m \<and> unat (mr_hop m) \<le> unat h"
    by (auto simp: ms_def)
  ultimately show ?thesis by blast
qed

theorem publish_ihaves_spec_witness:
  "\<exists>s s' ms. publish_ihaves (\<lambda>i. 2) s = Inr s' \<and> (7, 0) \<in> set ms \<and>
     pt_out_events s' = [NotifyHandler (PeerId [3]) (rpc_of ''t'' (IHave ms))]"
proof -
  define s where "s = inject_prune (PeerId [3]) (publish_message 1 7 [40, 9] sample_tree)"
  have inv: "tree_inv 1 s"
    unfolding s_def using sample_run_facts(1) by (intro tree_inv_members publish_message_inv [of 0]) simp_all
  have s: "ec_by_time (pt_received s) = [Timed (MessageRecord 7 0 (PeerId [1]) [40, 9]) 1]"
    "pt_lazy s = [PeerId [3]]" "pt_topic s = ''t''" "pt_out_events s = []"
    "lazy_push_window (pt_config s) = secs 2"
    by (simp_all add: s_def inject_prune_def publish_message_def sample_tree_def new_tree_def Let_def
        cache_insert_def cache_new_def cache_get_def hs_insert_def default_config_def)
  from publish_ihaves_spec [OF inv, of "\<lambda>i. 2"] s show ?thesis
    by (auto simp: secs_def split: if_splits)
qed

end
