(* ===== verification/Topic.thy ===== *)
theory Topic
  imports Tree_Repair View_Contract
begin

section \<open>A topic's mesh\<close>

text \<open>
  \<open>src/src/network/episub/topic.rs\<close>: a topic couples one HyParView instance with one PlumTree
  instance. Remote calls are routed to one or the other; peers that HyParView activates or drops reach
  the tree when the event that announces them leaves HyParView's queue.
\<close>

record topic_mesh =
  tm_tree :: plumtree
  tm_nodes :: hyparview
  tm_local_node :: addressable_peer
  tm_out_events :: "action list"

text \<open>\<open>TopicMesh::new\<close>: the tree reads the clock once, HyParView twice.\<close>

definition new_mesh :: "string \<Rightarrow> config \<Rightarrow> addressable_peer \<Rightarrow> clock \<Rightarrow> topic_mesh" where
  "new_mesh topic config local clk =
     \<lparr>tm_tree = new_tree topic config (peer_id local) (clk 0),
      tm_nodes = new_view (clock_from clk 1) topic config local,
      tm_local_node = local, tm_out_events = []\<rparr>"

definition on_nodes :: "(hyparview \<Rightarrow> hyparview) \<Rightarrow> topic_mesh \<Rightarrow> topic_mesh" where
  "on_nodes f s = s\<lparr>tm_nodes := f (tm_nodes s)\<rparr>"

definition on_tree :: "(plumtree \<Rightarrow> plumtree) \<Rightarrow> topic_mesh \<Rightarrow> topic_mesh" where
  "on_tree f s = s\<lparr>tm_tree := f (tm_tree s)\<rparr>"

definition disconnected :: "entropy \<Rightarrow> peer_id \<Rightarrow> bool \<Rightarrow> topic_mesh \<Rightarrow> topic_mesh" where
  "disconnected r p alive = on_nodes (inject_disconnect r p alive)"

definition mesh_initiate_join :: "wire_codec \<Rightarrow> addressable_peer \<Rightarrow> topic_mesh \<Rightarrow> topic_mesh" where
  "mesh_initiate_join w peer = on_nodes (initiate_join w peer)"

definition mesh_publish :: "instant \<Rightarrow> u64 \<Rightarrow> bytes \<Rightarrow> topic_mesh \<Rightarrow> topic_mesh" where
  "mesh_publish now i payload = on_tree (publish_message now i payload)"

text \<open>
  The advertisements of one message are recorded one after the other, each under its own reading of the
  clock.
\<close>

definition inject_ihaves :: "clock \<Rightarrow> peer_id \<Rightarrow> (u64 \<times> u32) list \<Rightarrow> plumtree \<Rightarrow> plumtree" where
  "inject_ihaves clk p ihaves s =
     foldl (\<lambda>s (k, i, h). inject_ihave (clk k) p i h s) s (zip [0..<length ihaves] ihaves)"

text \<open>
  \<open>inject_rpc_call\<close>. The outer sum is a panic (\<open>event.action.unwrap()\<close> on a message without action,
  or a payload that does not decompress), the inner one the call's \<open>Result\<close>, beside the state.
\<close>

definition inject_rpc_call ::
  "wire_codec \<Rightarrow> zstd \<Rightarrow> entropy \<Rightarrow> clock \<Rightarrow> peer_id \<Rightarrow> rpc \<Rightarrow> topic_mesh
     \<Rightarrow> panic + (rpc_error + unit) \<times> topic_mesh" where
  "inject_rpc_call w z r clk p event s =
     (case rpc_action event of
        None \<Rightarrow> Inl Unwrap_None
      | Some action \<Rightarrow>
          (case action of
             Join ttl peer \<Rightarrow>
               (case try_from_wire w peer of
                  Inr peer \<Rightarrow> Inr (Inr (), on_nodes (inject_join w r p peer ttl) s)
                | Inl _ \<Rightarrow> Inr (Inl InvalidPeerId, s))
           | ForwardJoin ttl peer \<Rightarrow>
               (case try_from_wire w peer of
                  Inr peer \<Rightarrow>
                    Inr (Inr (), on_nodes (inject_forward_join w r peer (unat ttl)
                                             (peer_id (tm_local_node s)) p) s)
                | Inl _ \<Rightarrow> Inr (Inl InvalidPeerId, s))
           | Neighbor peer priority \<Rightarrow>
               (case try_from_wire w peer of
                  Inr peer \<Rightarrow>
                    if peer_id peer = p then Inr (Inr (), on_nodes (inject_neighbor w r peer priority) s)
                    else Inr (Inl (ImpersonatedPeer p (peer_id peer)), s)
                | Inl _ \<Rightarrow> Inr (Inl InvalidPeerId, s))
           | Disconnect alive \<Rightarrow> Inr (Inr (), on_nodes (inject_disconnect r p alive) s)
           | Shuffle ttl origin nodes \<Rightarrow>
               (case try_from_wire w origin of
                  Inr origin \<Rightarrow>
                    Inr (Inr (), on_nodes (inject_shuffle w r p ttl (ok_peers w nodes) origin) s)
                | Inl _ \<Rightarrow> Inr (Inl InvalidPeerId, s))
           | ShuffleReply nodes \<Rightarrow> Inr (Inr (), on_nodes (inject_shuffle_reply w nodes) s)
           | Message i hop payload \<Rightarrow>
               on_ok (inject_message z (clk 0) p i hop payload (tm_tree s))
                 (\<lambda>tree. Inr (Inr (), s\<lparr>tm_tree := tree\<rparr>))
           | IHave ihaves \<Rightarrow> Inr (Inr (), on_tree (inject_ihaves clk p ihaves) s)
           | Prune \<Rightarrow> Inr (Inr (), on_tree (inject_prune p) s)
           | Graft ids \<Rightarrow> Inr (Inr (), on_tree (inject_graft p ids) s)))"

text \<open>\<open>match &event\<close> of \<open>poll\<close>: what an event of HyParView does to the tree.\<close>

fun notify_tree :: "action \<Rightarrow> plumtree \<Rightarrow> plumtree" where
  "notify_tree (GenerateEvent (PeerAdded p)) t = inject_neighbor_up p t"
| "notify_tree (GenerateEvent (PeerRemoved p)) t = inject_neighbor_down p t"
| "notify_tree _ t = t"

text \<open>\<open>Future::poll\<close>; HyParView reads the clock four times, then the tree.\<close>

definition poll_mesh ::
  "wire_codec \<Rightarrow> entropy \<Rightarrow> clock \<Rightarrow> topic_mesh \<Rightarrow> panic + action poll \<times> topic_mesh" where
  "poll_mesh w r clk s =
     (case tm_out_events s of
        e # es \<Rightarrow> Inr (Ready e, s\<lparr>tm_out_events := es\<rparr>)
      | [] \<Rightarrow>
          let (polled, nodes) = poll_view w r clk (tm_nodes s);
              s = s\<lparr>tm_nodes := nodes\<rparr>
          in case polled of
               Ready e \<Rightarrow> Inr (Ready e, on_tree (notify_tree e) s)
             | Pending \<Rightarrow>
                 on_ok (poll_tree r (clock_from clk 4) (tm_tree s))
                   (\<lambda>(polled, tree). Inr (polled, s\<lparr>tm_tree := tree\<rparr>)))"

end
