(* ===== verification/Topic_Properties.thy ===== *)
theory Topic_Properties
  imports Topic View_Properties
begin

section \<open>What a topic's mesh guarantees\<close>

text \<open>
  The coupling of the two protocols: every active peer of HyParView is known to the tree once the events
  that announce it are delivered; and the outcome of a remote call on every branch.
\<close>

subsection \<open>The peers of the tree\<close>

definition tree_peers :: "plumtree \<Rightarrow> peer_id set" where
  "tree_peers t = set (pt_eager t) \<union> set (pt_lazy t)"

lemma tree_peers_frame [simp]:
  "tree_peers (pt_push es t) = tree_peers t"
  "tree_peers (t\<lparr>pt_received := c\<rparr>) = tree_peers t"
  "tree_peers (t\<lparr>pt_observed := d\<rparr>) = tree_peers t"
  "tree_peers (t\<lparr>pt_out_events := es\<rparr>) = tree_peers t"
  "tree_peers (t\<lparr>pt_last_tick := u\<rparr>) = tree_peers t"
  "tree_peers (prune_history u t) = tree_peers t"
  by (simp_all add: tree_peers_def)

lemma tree_peers_members [simp]:
  "tree_peers (inject_neighbor_up p t) = insert p (tree_peers t)"
  "tree_peers (inject_neighbor_down p t) = tree_peers t - {p}"
  "tree_peers (inject_prune p t) = insert p (tree_peers t)"
  "tree_peers (inject_graft p ids t) = insert p (tree_peers t)"
  "tree_peers (inject_ihave u p i h t) = tree_peers t"
  "tree_peers (publish_message u i m t) = tree_peers t"
  by (auto simp: tree_peers_def inject_neighbor_up_def inject_neighbor_down_def inject_prune_def
      inject_graft_def inject_ihave_def publish_message_def Let_def split: option.split)

lemma tree_peers_ihaves [simp]: "tree_peers (inject_ihaves clk p ihaves t) = tree_peers t"
  unfolding inject_ihaves_def
  by (rule foldl_preserves [where P = "\<lambda>s. tree_peers s = tree_peers t"]) (simp_all add: case_prod_beta)

lemma tree_peers_notify: "tree_peers (notify_tree e t) = member_effect e (tree_peers t)"
  by (induction e t rule: notify_tree.induct) simp_all

lemma tree_peers_message:
  "inject_message z u p i h m t = Inr t' \<Longrightarrow> tree_peers t' = tree_peers t"
  by (cases "cache_get i (pt_received t)")
    (auto simp: inject_message_new inject_message_duplicate on_ok_Inr_iff Let_def tree_peers_def
      inject_prune_def split: if_splits)

lemma tree_peers_poll:
  assumes "poll_tree r clk t = Inr (e, t')"
  shows "tree_peers t' = tree_peers t"
proof -
  from assms obtain t1 where t1: "tree_timer r clk t = Inr t1" "t' = snd (pt_pop t1)"
    by (force simp: poll_tree_def on_ok_Inr_iff)
  from t1(1) have "tree_peers t1 = tree_peers t" by (rule tree_timer_cases) simp_all
  with t1(2) show ?thesis by - (rule tree_queue.pop_frame [of t1], simp)
qed

subsection \<open>Remote calls\<close>

text \<open>The call of HyParView a remote call turns into, if any.\<close>

lemma inject_rpc_call_cases:
  assumes "inject_rpc_call w z r clk p event s = Inr (res, s')"
  obtains (view) f where "tm_nodes s' = apply_view_op w r f (tm_nodes s)" "tm_tree s' = tm_tree s" "res = Inr ()"
    | (tree) "tm_nodes s' = tm_nodes s" "tree_peers (tm_tree s) \<subseteq> tree_peers (tm_tree s')" "res = Inr ()"
    | (error) e where "s' = s" "res = Inl e"
proof -
  from assms obtain a where a: "rpc_action event = Some a"
    by (auto simp: inject_rpc_call_def split: option.splits)
  note op = view [of "Op_Join p _ _"] view [of "Op_Forward_Join _ _ _ p"] view [of "Op_Neighbor _ _"]
    view [of "Op_Disconnect p _"] view [of "Op_Shuffle p _ _ _"] view [of "Op_Shuffle_Reply _"]
  show thesis
    by (cases a; use assms a in \<open>force simp: inject_rpc_call_def on_nodes_def on_tree_def on_ok_Inr_iff
          split: sum.splits if_splits dest!: tree_peers_message intro: op tree error\<close>)
qed

text \<open>The calls whose peer does not parse.\<close>

definition malformed_peer :: "wire_codec \<Rightarrow> rpc_action \<Rightarrow> bool" where
  "malformed_peer w a =
     (case a of
        Join _ v \<Rightarrow> peer_id_from_bytes w (wp_peer_id v) = None
      | ForwardJoin _ v \<Rightarrow> peer_id_from_bytes w (wp_peer_id v) = None
      | Neighbor v _ \<Rightarrow> peer_id_from_bytes w (wp_peer_id v) = None
      | Shuffle _ v _ \<Rightarrow> peer_id_from_bytes w (wp_peer_id v) = None
      | _ \<Rightarrow> False)"

lemma inject_rpc_call_panics:
  "inject_rpc_call w z r clk p event s = Inl x \<longleftrightarrow>
     (rpc_action event = None \<and> x = Unwrap_None) \<or>
     (\<exists>i h m. rpc_action event = Some (Message i h m) \<and> x = Unwrap_Err \<and>
        cache_get i (pt_received (tm_tree s)) = None \<and>
        enable_compression (pt_config (tm_tree s)) \<and> decode_all z m = None)"
proof (cases "rpc_action event")
  case None
  then show ?thesis by (auto simp: inject_rpc_call_def)
next
  case (Some a)
  have "inject_message z u p i h m t = Inl x \<longleftrightarrow>
     x = Unwrap_Err \<and> cache_get i (pt_received t) = None \<and> enable_compression (pt_config t) \<and>
     decode_all z m = None" for u i h m t x
    by (cases "cache_get i (pt_received t)")
      (auto simp: inject_message_new inject_message_duplicate split: option.split)
  then show ?thesis
    by (cases a; use Some in \<open>auto simp: inject_rpc_call_def on_ok_Inl_iff split: sum.splits if_splits\<close>)
qed

text \<open>
  C28. The outcome of a remote call, on every branch. The call panics exactly when the message has no
  action or carries a new payload that must be decompressed and cannot be. It fails exactly on a
  peer that does not parse (the joining peer, the announced neighbour, the origin of a shuffle) and on
  a neighbour request in another peer's name. A failed call leaves the topic as it was.
\<close>

theorem inject_rpc_call_outcome:
  "(\<forall>x. inject_rpc_call w z r clk p event s = Inl x \<longleftrightarrow>
      (rpc_action event = None \<and> x = Unwrap_None) \<or>
      (\<exists>i h m. rpc_action event = Some (Message i h m) \<and> x = Unwrap_Err \<and>
         cache_get i (pt_received (tm_tree s)) = None \<and>
         enable_compression (pt_config (tm_tree s)) \<and> decode_all z m = None)) \<and>
   (\<forall>e s'. inject_rpc_call w z r clk p event s = Inr (Inl e, s') \<longleftrightarrow>
      s' = s \<and>
      ((\<exists>a. rpc_action event = Some a \<and> malformed_peer w a \<and> e = InvalidPeerId) \<or>
       (\<exists>v prio q. rpc_action event = Some (Neighbor v prio) \<and>
          peer_id_from_bytes w (wp_peer_id v) = Some q \<and> q \<noteq> p \<and> e = ImpersonatedPeer p q)))"
proof (intro conjI allI)
  fix x
  show "inject_rpc_call w z r clk p event s = Inl x \<longleftrightarrow>
      (rpc_action event = None \<and> x = Unwrap_None) \<or>
      (\<exists>i h m. rpc_action event = Some (Message i h m) \<and> x = Unwrap_Err \<and>
         cache_get i (pt_received (tm_tree s)) = None \<and>
         enable_compression (pt_config (tm_tree s)) \<and> decode_all z m = None)"
    by (rule inject_rpc_call_panics)
next
  fix e s'
  show "inject_rpc_call w z r clk p event s = Inr (Inl e, s') \<longleftrightarrow>
      s' = s \<and>
      ((\<exists>a. rpc_action event = Some a \<and> malformed_peer w a \<and> e = InvalidPeerId) \<or>
       (\<exists>v prio q. rpc_action event = Some (Neighbor v prio) \<and>
          peer_id_from_bytes w (wp_peer_id v) = Some q \<and> q \<noteq> p \<and> e = ImpersonatedPeer p q))"
  proof (cases "rpc_action event")
    case None
    then show ?thesis by (auto simp: inject_rpc_call_def)
  next
    case (Some a)
    then show ?thesis
      by (cases a) (auto simp: inject_rpc_call_def malformed_peer_def try_from_wire_def on_ok_Inr_iff
          split: option.splits if_splits)
  qed
qed

subsection \<open>Every active peer reaches the tree\<close>

text \<open>
  The states of a topic: created, then any sequence of its public methods, none of them panicking, and of
  rehashes that change the order in which its sets are iterated.
\<close>

inductive mesh_step :: "wire_codec \<Rightarrow> zstd \<Rightarrow> topic_mesh \<Rightarrow> topic_mesh \<Rightarrow> bool" for w z where
  mesh_call: "inject_rpc_call w z r clk p event s = Inr (res, s') \<Longrightarrow> mesh_step w z s s'"
| mesh_disconnect: "mesh_step w z s (disconnected r p alive s)"
| mesh_join: "mesh_step w z s (mesh_initiate_join w peer s)"
| mesh_send: "mesh_step w z s (mesh_publish now i payload s)"
| mesh_poll: "poll_mesh w r clk s = Inr (e, s') \<Longrightarrow> mesh_step w z s s'"
| mesh_rehash: "mset a = mset (hv_active (tm_nodes s)) \<Longrightarrow> mset b = mset (hv_passive (tm_nodes s)) \<Longrightarrow>
    mset c = mset (pt_eager (tm_tree s)) \<Longrightarrow> mset d = mset (pt_lazy (tm_tree s)) \<Longrightarrow>
    mesh_step w z s (s\<lparr>tm_nodes := (tm_nodes s)\<lparr>hv_active := a, hv_passive := b\<rparr>,
                       tm_tree := (tm_tree s)\<lparr>pt_eager := c, pt_lazy := d\<rparr>\<rparr>)"

inductive mesh_reachable :: "wire_codec \<Rightarrow> zstd \<Rightarrow> topic_mesh \<Rightarrow> bool" for w z where
  mesh_init: "mesh_reachable w z (new_mesh topic config local clk)"
| mesh_next: "mesh_reachable w z s \<Longrightarrow> mesh_step w z s s' \<Longrightarrow> mesh_reachable w z s'"

definition mesh_covered :: "topic_mesh \<Rightarrow> bool" where
  "mesh_covered s \<longleftrightarrow>
     hs_keys peer_id (hv_active (tm_nodes s)) \<subseteq>
       replay (hv_out_events (tm_nodes s)) (tree_peers (tm_tree s)) \<and>
     tm_out_events s = []"

lemma mesh_covered_view:
  assumes "mesh_covered s" and "tm_nodes s' = apply_view_op w r f (tm_nodes s)"
    and "tm_tree s' = tm_tree s" and "tm_out_events s' = tm_out_events s"
  shows "mesh_covered s'"
  using assms view_sampling.covered_op by (simp add: mesh_covered_def)

lemma mesh_covered_tree:
  assumes "mesh_covered s" and "tm_nodes s' = tm_nodes s" and "tm_out_events s' = tm_out_events s"
    and "tree_peers (tm_tree s) \<subseteq> tree_peers (tm_tree s')"
  shows "mesh_covered s'"
  using assms replay_mono [OF assms(4), of "hv_out_events (tm_nodes s)"] by (auto simp: mesh_covered_def)

text \<open>One poll of a topic: the next event of HyParView, or the tree is polled.\<close>

lemma poll_mesh_cases:
  assumes "poll_mesh w r clk s = Inr (e, s')" and "tm_out_events s = []"
  obtains (view) a es where "hv_out_events (apply_view_op w r (Op_Timers clk) (tm_nodes s)) = a # es" "e = Ready a"
      "s' = s\<lparr>tm_nodes := (apply_view_op w r (Op_Timers clk) (tm_nodes s))\<lparr>hv_out_events := es\<rparr>,
              tm_tree := notify_tree a (tm_tree s)\<rparr>"
    | (tree) t where "hv_out_events (apply_view_op w r (Op_Timers clk) (tm_nodes s)) = []"
      "poll_tree r (clock_from clk 4) (tm_tree s) = Inr (e, t)"
      "s' = s\<lparr>tm_nodes := apply_view_op w r (Op_Timers clk) (tm_nodes s), tm_tree := t\<rparr>"
proof (cases "hv_out_events (apply_view_op w r (Op_Timers clk) (tm_nodes s))")
  case Nil
  with assms tree show thesis
    by (auto simp: poll_mesh_def poll_view_def hv_pop_def on_ok_Inr_iff)
next
  case (Cons a es)
  with assms view show thesis
    by (auto simp: poll_mesh_def poll_view_def hv_pop_def on_tree_def)
qed

lemma mesh_covered_poll:
  assumes "mesh_covered s" and "poll_mesh w r clk s = Inr (e, s')"
  shows "mesh_covered s'"
proof -
  define n where "n = apply_view_op w r (Op_Timers clk) (tm_nodes s)"
  have empty: "tm_out_events s = []" using assms(1) by (simp add: mesh_covered_def)
  have covered: "hs_keys peer_id (hv_active n) \<subseteq> replay (hv_out_events n) (tree_peers (tm_tree s))"
    using assms(1) unfolding n_def mesh_covered_def by (intro view_sampling.covered_op) simp
  from assms(2) empty show ?thesis
  proof (cases rule: poll_mesh_cases)
    case (view a es)
    with covered empty show ?thesis by (simp add: n_def mesh_covered_def tree_peers_notify)
  next
    case (tree t)
    with covered empty tree_peers_poll [OF tree(2)] show ?thesis by (simp add: n_def mesh_covered_def)
  qed
qed

lemma tm_out_events_frame [simp]:
  "tm_out_events (on_nodes f s) = tm_out_events s" "tm_out_events (on_tree g s) = tm_out_events s"
  by (simp_all add: on_nodes_def on_tree_def)

lemma inject_rpc_call_queue:
  "inject_rpc_call w z r clk p event s = Inr (res, s') \<Longrightarrow> tm_out_events s' = tm_out_events s"
proof -
  assume call: "inject_rpc_call w z r clk p event s = Inr (res, s')"
  then obtain a where "rpc_action event = Some a"
    by (auto simp: inject_rpc_call_def split: option.splits)
  with call show ?thesis
    by (cases a) (auto simp: inject_rpc_call_def on_ok_Inr_iff split: sum.splits if_splits)
qed

lemma mesh_covered_step: "mesh_step w z s s' \<Longrightarrow> mesh_covered s \<Longrightarrow> mesh_covered s'"
proof (induction rule: mesh_step.induct)
  case (mesh_call r clk p event s res s')
  note same = inject_rpc_call_queue [OF mesh_call(1)]
  from mesh_call(1) show ?case
  proof (cases rule: inject_rpc_call_cases)
    case (view f)
    show ?thesis by (rule mesh_covered_view [OF mesh_call(2) view(1,2) same])
  next
    case tree
    show ?thesis by (rule mesh_covered_tree [OF mesh_call(2) tree(1) same tree(2)])
  qed (use mesh_call(2) in simp)
next
  case (mesh_disconnect s r p alive)
  then show ?case
    by (rule mesh_covered_view [where f = "Op_Disconnect p alive" and r = r])
      (simp_all add: disconnected_def on_nodes_def)
next
  case (mesh_join s peer)
  then show ?case
    by (rule mesh_covered_view [where f = "Op_Initiate_Join peer"])
      (simp_all add: mesh_initiate_join_def on_nodes_def)
next
  case (mesh_send s now i payload)
  then show ?case
    by (rule mesh_covered_tree) (simp_all add: mesh_publish_def on_tree_def)
next
  case (mesh_rehash a s b c d)
  from mset_eq_setD [OF mesh_rehash(1)] mset_eq_setD [OF mesh_rehash(3)] mset_eq_setD [OF mesh_rehash(4)]
    mesh_rehash(5) show ?case by (simp add: mesh_covered_def tree_peers_def hs_keys_def)
qed (rule mesh_covered_poll)

lemma mesh_reachable_covered: "mesh_reachable w z s \<Longrightarrow> mesh_covered s"
proof (induction rule: mesh_reachable.induct)
  case (mesh_init topic config local clk)
  show ?case by (simp add: mesh_covered_def new_mesh_def new_view_def)
qed (rule mesh_covered_step)

subsection \<open>A mesh stays with its topic\<close>

definition tree_ident :: "plumtree \<Rightarrow> string \<times> config \<times> peer_id" where
  "tree_ident t = (pt_topic t, pt_config t, pt_local_node t)"

lemma tree_ident_frame [simp]:
  "tree_ident (pt_push es t) = tree_ident t"
  "tree_ident (t\<lparr>pt_received := c\<rparr>) = tree_ident t"
  "tree_ident (t\<lparr>pt_observed := d\<rparr>) = tree_ident t"
  "tree_ident (t\<lparr>pt_out_events := es\<rparr>) = tree_ident t"
  "tree_ident (t\<lparr>pt_last_tick := u\<rparr>) = tree_ident t"
  "tree_ident (t\<lparr>pt_eager := ps, pt_lazy := qs\<rparr>) = tree_ident t"
  "tree_ident (prune_history u t) = tree_ident t"
  "tree_ident (inject_neighbor_up p t) = tree_ident t"
  "tree_ident (inject_neighbor_down p t) = tree_ident t"
  "tree_ident (inject_prune p t) = tree_ident t"
  "tree_ident (inject_graft p ids t) = tree_ident t"
  "tree_ident (inject_ihave u p i h t) = tree_ident t"
  "tree_ident (publish_message u i m t) = tree_ident t"
  by (auto simp: tree_ident_def inject_neighbor_up_def inject_neighbor_down_def inject_prune_def
      inject_graft_def inject_ihave_def publish_message_def prune_history_def Let_def split: option.split)

lemma tree_ident_ihaves [simp]: "tree_ident (inject_ihaves clk p ihaves t) = tree_ident t"
  unfolding inject_ihaves_def
  by (rule foldl_preserves [where P = "\<lambda>s. tree_ident s = tree_ident t"]) (simp_all add: case_prod_beta)

lemma tree_ident_notify [simp]: "tree_ident (notify_tree e t) = tree_ident t"
  by (induction e t rule: notify_tree.induct) simp_all

lemma tree_ident_message: "inject_message z u p i h m t = Inr t' \<Longrightarrow> tree_ident t' = tree_ident t"
  by (cases "cache_get i (pt_received t)")
    (auto simp: inject_message_new inject_message_duplicate on_ok_Inr_iff Let_def split: if_splits)

lemma tree_ident_poll:
  assumes "poll_tree r clk t = Inr (e, t')"
  shows "tree_ident t' = tree_ident t"
proof -
  from assms obtain t1 where t1: "tree_timer r clk t = Inr t1" "t' = snd (pt_pop t1)"
    by (force simp: poll_tree_def on_ok_Inr_iff)
  from t1(1) have "tree_ident t1 = tree_ident t" by (rule tree_timer_cases) simp_all
  with t1(2) show ?thesis by - (rule tree_queue.pop_frame [of t1], simp)
qed

lemma tree_ident_call:
  assumes "inject_rpc_call w z r clk p event s = Inr (res, s')"
  shows "tree_ident (tm_tree s') = tree_ident (tm_tree s)"
proof -
  from assms obtain a where "rpc_action event = Some a"
    by (auto simp: inject_rpc_call_def split: option.splits)
  with assms show ?thesis
    by (cases a) (auto simp: inject_rpc_call_def on_nodes_def on_tree_def on_ok_Inr_iff
        dest: tree_ident_message split: sum.splits if_splits)
qed

lemma tree_ident_mesh_poll:
  assumes "poll_mesh w r clk s = Inr (e, s')"
  shows "tree_ident (tm_tree s') = tree_ident (tm_tree s)"
  using assms
  by (auto simp: poll_mesh_def on_ok_Inr_iff on_tree_def Let_def dest: tree_ident_poll
      split: list.splits prod.splits poll.splits)

text \<open>
  A reachable mesh that was made for topic \<open>t\<close> by a node with this configuration and identity, which is
  absent while the node does not know itself.
\<close>

definition mesh_of :: "wire_codec \<Rightarrow> zstd \<Rightarrow> string \<Rightarrow> config \<times> peer_id option \<Rightarrow> topic_mesh \<Rightarrow> bool" where
  "mesh_of w z t ident s \<longleftrightarrow>
     mesh_reachable w z s \<and> (\<exists>c me. ident = (c, Some me) \<and> tree_ident (tm_tree s) = (t, c, me))"

lemma mesh_of_init: "mesh_of w z t (c, Some (peer_id local)) (new_mesh t c local clk)"
  by (simp add: mesh_of_def mesh_init) (simp add: tree_ident_def new_mesh_def new_tree_def)

lemma mesh_of_next:
  assumes "mesh_of w z t c s" and "mesh_step w z s s'"
  shows "mesh_of w z t c s'"
proof -
  from assms(2) have "tree_ident (tm_tree s') = tree_ident (tm_tree s)"
    by (cases rule: mesh_step.cases)
      (simp_all add: tree_ident_call tree_ident_mesh_poll disconnected_def mesh_initiate_join_def
        mesh_publish_def on_nodes_def on_tree_def)
  with assms show ?thesis by (auto simp: mesh_of_def intro: mesh_next)
qed

text \<open>
  C16. The broadcast tree never loses an active peer. In every state a topic can reach, replaying the
  events still queued in HyParView over the peers the tree knows, eager or lazy, covers the whole active
  view; so with that queue drained every active peer is eager or lazy.
\<close>

theorem active_peers_reach_tree:
  assumes "mesh_reachable w z s"
  shows "hs_keys peer_id (hv_active (tm_nodes s)) \<subseteq>
      replay (hv_out_events (tm_nodes s)) (set (pt_eager (tm_tree s)) \<union> set (pt_lazy (tm_tree s))) \<and>
    (hv_out_events (tm_nodes s) = [] \<longrightarrow>
       (\<forall>x \<in> set (hv_active (tm_nodes s)).
          peer_id x \<in> set (pt_eager (tm_tree s)) \<or> peer_id x \<in> set (pt_lazy (tm_tree s))))"
  using mesh_reachable_covered [OF assms] by (force simp: mesh_covered_def tree_peers_def hs_keys_def)

theorem active_peers_reach_tree_witness:
  "\<exists>s. mesh_reachable toy_wire tag_zstd s \<and> hv_active (tm_nodes s) = [node 1] \<and>
     PeerId [1] \<in> replay (hv_out_events (tm_nodes s))
       (set (pt_eager (tm_tree s)) \<union> set (pt_lazy (tm_tree s)))"
proof -
  define s0 where "s0 = new_mesh ''t'' small_config (node 0) (\<lambda>_. 0)"
  define event where "event = rpc_of ''t'' (Join 2 (into_wire toy_wire (node 1)))"
  define s where "s = on_nodes (inject_join toy_wire first_entropy (PeerId [1]) (node 1) 2) s0"
  have "try_from_wire toy_wire (into_wire toy_wire (node 1)) = Inr (node 1)"
    by (simp add: try_from_into_wire codec_roundtrips_def toy_wire_def)
  then have "inject_rpc_call toy_wire tag_zstd first_entropy (\<lambda>_. 0) (PeerId [1]) event s0 = Inr (Inr (), s)"
    by (simp add: inject_rpc_call_def event_def s_def)
  then have reach: "mesh_reachable toy_wire tag_zstd s"
    unfolding s0_def by (intro mesh_next [OF mesh_init mesh_call])
  have "hv_active (tm_nodes s) = [node 1]"
    by (simp add: s_def s0_def on_nodes_def new_mesh_def new_view_def inject_join_def overconnected_def
        add_node_to_active_view_def hs_contains_def hs_insert_def Let_def)
  with active_peers_reach_tree [OF reach] have "PeerId [1] \<in> replay (hv_out_events (tm_nodes s))
      (set (pt_eager (tm_tree s)) \<union> set (pt_lazy (tm_tree s)))"
    by simp
  with reach \<open>hv_active (tm_nodes s) = [node 1]\<close> show ?thesis by blast
qed

end
