(* ===== verification/Broadcast.thy ===== *)
theory Broadcast
  imports Topic_Properties
begin

section \<open>A message spreading through a cluster\<close>

text \<open>
  Several trees and the network between them: a step either takes the next event out of a node's queue,
  onto the wire or into the application, or hands a message that is on the wire, any of them, to its
  receiver. The wire loses nothing and keeps no order. The steps are the operations of
  \<open>src/src/network/episub/tree.rs\<close> while no timer is due and no peer joins or leaves.
\<close>

subsection \<open>The cluster\<close>

record cluster =
  cl_node :: "peer_id \<Rightarrow> plumtree"
  cl_flight :: "(peer_id \<times> peer_id \<times> rpc) multiset"
  cl_log :: "(peer_id \<times> episub_event) list"

text \<open>The arms of \<open>inject_rpc_call\<close> that reach the tree; the view answers the other calls.\<close>

definition tree_call :: "zstd \<Rightarrow> clock \<Rightarrow> peer_id \<Rightarrow> rpc \<Rightarrow> plumtree \<Rightarrow> panic + plumtree" where
  "tree_call z clk p event t =
     (case rpc_action event of
        Some (Message i hop payload) \<Rightarrow> inject_message z (clk 0) p i hop payload t
      | Some (IHave ihaves) \<Rightarrow> Inr (inject_ihaves clk p ihaves t)
      | Some Prune \<Rightarrow> Inr (inject_prune p t)
      | Some (Graft ids) \<Rightarrow> Inr (inject_graft p ids t)
      | _ \<Rightarrow> Inr t)"

definition for_tree :: "rpc \<Rightarrow> bool" where
  "for_tree event \<longleftrightarrow>
     (case rpc_action event of
        Some (Message _ _ _) \<Rightarrow> True | Some (IHave _) \<Rightarrow> True | Some Prune \<Rightarrow> True | Some (Graft _) \<Rightarrow> True
      | _ \<Rightarrow> False)"

lemma tree_call_is_rpc_call:
  assumes "for_tree event"
  shows "inject_rpc_call w z r clk p event s =
    on_ok (tree_call z clk p event (tm_tree s)) (\<lambda>t. Inr (Inr (), s\<lparr>tm_tree := t\<rparr>))"
  using assms
  by (auto simp: for_tree_def inject_rpc_call_def tree_call_def on_tree_def split: option.splits rpc_action.splits)

fun on_wire :: "peer_id \<Rightarrow> action \<Rightarrow> (peer_id \<times> peer_id \<times> rpc) multiset" where
  "on_wire v (NotifyHandler q event) = {#(v, q, event)#}"
| "on_wire v _ = {#}"

fun to_application :: "peer_id \<Rightarrow> action \<Rightarrow> (peer_id \<times> episub_event) list" where
  "to_application v (GenerateEvent e) = [(v, e)]"
| "to_application v _ = []"

inductive cluster_step :: "zstd \<Rightarrow> cluster \<Rightarrow> cluster \<Rightarrow> bool" for z where
  cluster_send: "pt_pop (cl_node s v) = (Ready e, t) \<Longrightarrow>
    cluster_step z s (s\<lparr>cl_node := (cl_node s)(v := t), cl_flight := cl_flight s + on_wire v e,
                        cl_log := cl_log s @ to_application v e\<rparr>)"
| cluster_deliver: "(p, v, event) \<in># cl_flight s \<Longrightarrow> tree_call z clk p event (cl_node s v) = Inr t \<Longrightarrow>
    cluster_step z s (s\<lparr>cl_node := (cl_node s)(v := t), cl_flight := cl_flight s - {#(p, v, event)#}\<rparr>)"

definition published :: "instant \<Rightarrow> peer_id \<Rightarrow> u64 \<Rightarrow> bytes \<Rightarrow> cluster \<Rightarrow> cluster" where
  "published now origin i m s =
     s\<lparr>cl_node := (cl_node s)(origin := publish_message now i m (cl_node s origin))\<rparr>"

definition decodes_at :: "zstd \<Rightarrow> string \<Rightarrow> bytes \<Rightarrow> bytes \<Rightarrow> plumtree \<Rightarrow> bool" where
  "decodes_at z tp m out t \<longleftrightarrow>
     pt_topic t = tp \<and> (if enable_compression (pt_config t) then decode_all z m = Some out else m = out)"

definition deliveries_at :: "cluster \<Rightarrow> peer_id \<Rightarrow> episub_event list" where
  "deliveries_at s v = map snd (filter (\<lambda>(u, e). u = v) (cl_log s))"

text \<open>
  A cluster at rest: the nodes \<open>N\<close> keep to themselves, have not seen the message, and can all decode
  it.
\<close>

definition at_rest :: "zstd \<Rightarrow> peer_id set \<Rightarrow> u64 \<Rightarrow> string \<Rightarrow> bytes \<Rightarrow> bytes \<Rightarrow> cluster \<Rightarrow> bool" where
  "at_rest z N i tp m out s \<longleftrightarrow>
     finite N \<and> cl_flight s = {#} \<and> cl_log s = [] \<and> (\<forall>v. pt_out_events (cl_node s v) = []) \<and>
     (\<forall>v \<in> N. set (pt_eager (cl_node s v)) \<subseteq> N \<and>
        cache_get i (pt_received (cl_node s v)) = None \<and> cache_get i (pt_observed (cl_node s v)) = None \<and>
        decodes_at z tp m out (cl_node s v))"

subsection \<open>The invariant\<close>

definition has_message :: "u64 \<Rightarrow> plumtree \<Rightarrow> bool" where
  "has_message i t \<longleftrightarrow> cache_get i (pt_received t) \<noteq> None"

definition carries :: "u64 \<Rightarrow> bytes \<Rightarrow> rpc \<Rightarrow> bool" where
  "carries i m event \<longleftrightarrow> (\<exists>h. rpc_action event = Some (Message i h m))"

definition is_prune :: "rpc \<Rightarrow> bool" where
  "is_prune event \<longleftrightarrow> rpc_action event = Some Prune"

text \<open>What one node may have in its queue, and what it owes: \<open>es\<close> are its eager peers at the start.\<close>

definition node_ok ::
  "zstd \<Rightarrow> u64 \<Rightarrow> string \<Rightarrow> bytes \<Rightarrow> bytes \<Rightarrow> peer_id set \<Rightarrow> peer_id set \<Rightarrow> peer_id list \<Rightarrow> plumtree \<Rightarrow> bool" where
  "node_ok z i tp m out N H es t \<longleftrightarrow>
     decodes_at z tp m out t \<and>
     (\<not> has_message i t \<longrightarrow> pt_eager t = es \<and> pt_out_events t = []) \<and>
     (\<forall>a \<in> set (pt_out_events t).
        (\<exists>q event. a = NotifyHandler q event \<and> q \<in> N \<and> (carries i m event \<or> is_prune event \<and> q \<in> H)) \<or>
        a = GenerateEvent (EvMessage tp i out))"

definition holders :: "u64 \<Rightarrow> peer_id set \<Rightarrow> cluster \<Rightarrow> peer_id set" where
  "holders i N s = {v \<in> N. has_message i (cl_node s v)}"

definition sending :: "u64 \<Rightarrow> bytes \<Rightarrow> cluster \<Rightarrow> peer_id \<Rightarrow> peer_id \<Rightarrow> bool" where
  "sending i m s v q \<longleftrightarrow>
     (\<exists>event. carries i m event \<and>
        (NotifyHandler q event \<in> set (pt_out_events (cl_node s v)) \<or> (v, q, event) \<in># cl_flight s))"

fun is_delivery :: "action \<Rightarrow> bool" where
  "is_delivery (GenerateEvent _) = True"
| "is_delivery _ = False"

definition delivered_count :: "cluster \<Rightarrow> peer_id \<Rightarrow> nat" where
  "delivered_count s v =
     length (deliveries_at s v) + length (filter is_delivery (pt_out_events (cl_node s v)))"

definition broadcast_inv ::
  "zstd \<Rightarrow> peer_id set \<Rightarrow> (peer_id \<Rightarrow> peer_id list) \<Rightarrow> peer_id \<Rightarrow> u64 \<Rightarrow> string \<Rightarrow> bytes \<Rightarrow> bytes \<Rightarrow> cluster \<Rightarrow> bool" where
  "broadcast_inv z N E origin i tp m out s \<longleftrightarrow>
     origin \<in> holders i N s \<and>
     (\<forall>v. v \<notin> N \<longrightarrow> pt_out_events (cl_node s v) = []) \<and>
     (\<forall>v \<in> N. set (E v) \<subseteq> N) \<and>
     (\<forall>v \<in> N. node_ok z i tp m out N (holders i N s) (E v) (cl_node s v)) \<and>
     (\<forall>p q event. (p, q, event) \<in># cl_flight s \<longrightarrow>
        p \<in> holders i N s \<and> q \<in> N \<and> (carries i m event \<or> is_prune event \<and> q \<in> holders i N s)) \<and>
     (\<forall>v \<in> holders i N s. \<forall>q \<in> set (E v). q \<in> holders i N s \<or> sending i m s v q) \<and>
     (\<forall>x \<in> set (cl_log s). snd x = EvMessage tp i out) \<and>
     (\<forall>v \<in> N. delivered_count s v = (if v \<in> holders i N s \<and> v \<noteq> origin then 1 else 0))"

subsection \<open>One node receives\<close>

lemma has_message_insert [simp]:
  "has_message i (t\<lparr>pt_received := snd (cache_insert mr_id now (MessageRecord i h p m) (pt_received t))\<rparr>)"
  by (simp add: has_message_def received_store.lookup_insert)

lemma has_message_frame [simp]:
  "has_message i (pt_push es t) = has_message i t"
  "has_message i (inject_prune p t) = has_message i t"
  "has_message i (t\<lparr>pt_out_events := es\<rparr>) = has_message i t"
  by (simp_all add: has_message_def inject_prune_def)

lemma receive_first:
  assumes "carries i m event" and "\<not> has_message i t" and "decodes_at z tp m out t"
  shows "\<exists>h t1. has_message i t1 \<and> pt_config t1 = pt_config t \<and> pt_topic t1 = pt_topic t \<and> pt_eager t1 = pt_eager t \<and> pt_out_events t1 = pt_out_events t \<and>
    tree_call z clk p event t = Inr (pt_push (GenerateEvent (EvMessage tp i out) #
        map (pt_notify t (Message i (h + 1) m)) (filter (\<lambda>q. q \<noteq> p) (pt_eager t))) t1)"
proof -
  obtain h where h: "rpc_action event = Some (Message i h m)" using assms(1) by (auto simp: carries_def)
  have "cache_get i (pt_received t) = None" using assms(2) by (simp add: has_message_def)
  moreover have "(if enable_compression (pt_config t) then
      (case decode_all z m of None \<Rightarrow> Inl Unwrap_Err | Some out \<Rightarrow> Inr out) else Inr m) = Inr out"
    using assms(3) by (auto simp: decodes_at_def split: if_splits)
  moreover have "pt_topic t = tp" using assms(3) by (simp add: decodes_at_def)
  ultimately have "tree_call z clk p event t = Inr (pt_push (GenerateEvent (EvMessage tp i out) #
        map (pt_notify t (Message i (h + 1) m)) (filter (\<lambda>q. q \<noteq> p) (pt_eager t)))
        (t\<lparr>pt_received := snd (cache_insert mr_id (clk 0) (MessageRecord i h p m) (pt_received t))\<rparr>))"
    by (simp add: tree_call_def h inject_message_new)
  then show ?thesis
    by (intro exI [of _ h] exI [of _ "t\<lparr>pt_received := snd (cache_insert mr_id (clk 0) (MessageRecord i h p m) (pt_received t))\<rparr>"])
      simp
qed

lemma receive_again:
  assumes "carries i m event \<and> has_message i t \<or> is_prune event"
  shows "\<exists>t1 es. tree_call z clk p event t = Inr (pt_push es t1) \<and> has_message i t1 = has_message i t \<and>
    pt_config t1 = pt_config t \<and> pt_topic t1 = pt_topic t \<and> pt_out_events t1 = pt_out_events t \<and>
    (es = [] \<or> carries i m event \<and> es = [pt_notify t Prune p])"
  using assms
proof
  assume a: "carries i m event \<and> has_message i t"
  then obtain h where h: "rpc_action event = Some (Message i h m)" by (auto simp: carries_def)
  let ?t = "t\<lparr>pt_received := snd (cache_insert mr_id (clk 0) (MessageRecord i h p m) (pt_received t))\<rparr>"
  have "cache_get i (pt_received t) \<noteq> None" using a by (simp add: has_message_def)
  from inject_message_duplicate [OF this, of z "clk 0" p h m]
  have call: "tree_call z clk p event t = Inr (if optimize_sender_tree (pt_config t) \<and> p \<in> set (pt_eager t)
      then pt_push [pt_notify t Prune p] (inject_prune p ?t) else pt_push [] ?t)"
    by (simp add: tree_call_def h Let_def pt_push_def)
  have same: "pt_config (inject_prune p ?t) = pt_config t" "pt_topic (inject_prune p ?t) = pt_topic t" "pt_out_events (inject_prune p ?t) = pt_out_events t"
    by (simp_all add: inject_prune_def)
  show ?thesis
  proof (cases "optimize_sender_tree (pt_config t) \<and> p \<in> set (pt_eager t)")
    case True
    with call same a show ?thesis
      by (intro exI [of _ "inject_prune p ?t"] exI [of _ "[pt_notify t Prune p]"]) simp
  next
    case False
    with call a show ?thesis by (intro exI [of _ ?t] exI [of _ "[]"]) auto
  qed
next
  assume "is_prune event"
  then have "tree_call z clk p event t = Inr (pt_push [] (inject_prune p t))"
    by (simp add: tree_call_def is_prune_def pt_push_def)
  moreover have "pt_config (inject_prune p t) = pt_config t" "pt_topic (inject_prune p t) = pt_topic t" "pt_out_events (inject_prune p t) = pt_out_events t"
    by (simp_all add: inject_prune_def)
  ultimately show ?thesis by (intro exI [of _ "inject_prune p t"] exI [of _ "[]"]) simp
qed


subsection \<open>Every step keeps the invariant\<close>

lemma node_ok_mono:
  assumes "node_ok z i tp m out N H es t" and "H \<subseteq> H'"
  shows "node_ok z i tp m out N H' es t"
  using assms unfolding node_ok_def by blast

lemma carries_not_prune: "carries i m event \<Longrightarrow> \<not> is_prune event"
  by (auto simp: carries_def is_prune_def)

lemma holders_upd:
  "holders i N (s\<lparr>cl_node := (cl_node s)(v := t), cl_flight := F, cl_log := L\<rparr>) =
     (if v \<in> N \<and> has_message i t then insert v (holders i N s) else holders i N s - {v})"
  by (auto simp: holders_def)

lemma other_in_flight: "x \<noteq> y \<Longrightarrow> x \<in># M - {#y#} \<longleftrightarrow> x \<in># M"
  by (simp add: in_diff_count)

lemma broadcast_inv_flight:
  assumes "broadcast_inv z N E origin i tp m out s" and "(p, q, event) \<in># cl_flight s"
  shows "p \<in> holders i N s" and "q \<in> N"
    and "carries i m event \<or> is_prune event \<and> q \<in> holders i N s"
  using assms unfolding broadcast_inv_def by blast+

lemma broadcast_inv_node:
  assumes "broadcast_inv z N E origin i tp m out s" and "v \<in> N"
  shows "node_ok z i tp m out N (holders i N s) (E v) (cl_node s v)"
  using assms unfolding broadcast_inv_def by blast

lemma broadcast_inv_count:
  assumes "broadcast_inv z N E origin i tp m out s" and "v \<in> N"
  shows "delivered_count s v = (if v \<in> holders i N s \<and> v \<noteq> origin then 1 else 0)"
  using assms unfolding broadcast_inv_def by blast

lemma inv_update:
  assumes inv: "broadcast_inv z N E origin i tp m out s" and v: "v \<in> N"
    and s': "cl_node s' = (cl_node s)(v := t)"
    and log: "\<forall>x \<in> set (cl_log s'). snd x = EvMessage tp i out"
    and flight: "\<And>p q event. (p, q, event) \<in># cl_flight s' \<Longrightarrow>
      (p, q, event) \<in># cl_flight s \<or>
      p \<in> holders i N s' \<and> q \<in> N \<and> (carries i m event \<or> is_prune event \<and> q \<in> holders i N s')"
    and mono: "holders i N s \<subseteq> holders i N s'"
    and node: "node_ok z i tp m out N (holders i N s') (E v) t"
    and sends: "\<And>w q. sending i m s w q \<Longrightarrow> sending i m s' w q \<or> q \<in> holders i N s'"
    and new: "\<And>w q. w \<in> holders i N s' \<Longrightarrow> w \<notin> holders i N s \<Longrightarrow> q \<in> set (E w) \<Longrightarrow>
      q \<in> holders i N s' \<or> sending i m s' w q"
    and count: "\<And>w. w \<in> N \<Longrightarrow> delivered_count s' w = (if w \<in> holders i N s' \<and> w \<noteq> origin then 1 else 0)"
  shows "broadcast_inv z N E origin i tp m out s'"
  unfolding broadcast_inv_def
proof (intro conjI)
  let ?H = "holders i N s" and ?H' = "holders i N s'"
  show "origin \<in> ?H'" "\<forall>v \<in> N. set (E v) \<subseteq> N" using inv mono unfolding broadcast_inv_def by blast+
  show "\<forall>v. v \<notin> N \<longrightarrow> pt_out_events (cl_node s' v) = []" using inv v by (auto simp: broadcast_inv_def s')
  show "\<forall>w \<in> N. node_ok z i tp m out N ?H' (E w) (cl_node s' w)"
  proof
    fix w assume "w \<in> N"
    then show "node_ok z i tp m out N ?H' (E w) (cl_node s' w)"
      using node node_ok_mono [OF broadcast_inv_node [OF inv] mono] by (cases "w = v") (simp_all add: s')
  qed
  show "\<forall>p q event. (p, q, event) \<in># cl_flight s' \<longrightarrow>
      p \<in> ?H' \<and> q \<in> N \<and> (carries i m event \<or> is_prune event \<and> q \<in> ?H')"
    using flight broadcast_inv_flight [OF inv] mono by blast
  show "\<forall>w \<in> ?H'. \<forall>q \<in> set (E w). q \<in> ?H' \<or> sending i m s' w q"
  proof (intro ballI)
    fix w q assume w: "w \<in> ?H'" "q \<in> set (E w)"
    show "q \<in> ?H' \<or> sending i m s' w q"
    proof (cases "w \<in> ?H")
      case True
      with w(2) inv have "q \<in> ?H \<or> sending i m s w q" unfolding broadcast_inv_def by blast
      with mono sends show ?thesis by blast
    qed (use new w in blast)
  qed
  show "\<forall>x \<in> set (cl_log s'). snd x = EvMessage tp i out"
    by (rule log)
  show "\<forall>w \<in> N. delivered_count s' w = (if w \<in> ?H' \<and> w \<noteq> origin then 1 else 0)" using count by blast
qed

lemma inv_deliver:
  assumes inv: "broadcast_inv z N E origin i tp m out s" and v: "v \<in> N"
    and s': "s' = s\<lparr>cl_node := (cl_node s)(v := t), cl_flight := cl_flight s - {#x#}\<rparr>"
    and rest: "holders i N s \<subseteq> holders i N s'" "node_ok z i tp m out N (holders i N s') (E v) t"
      "\<And>w q. sending i m s w q \<Longrightarrow> sending i m s' w q \<or> q \<in> holders i N s'"
      "\<And>w q. w \<in> holders i N s' \<Longrightarrow> w \<notin> holders i N s \<Longrightarrow> q \<in> set (E w) \<Longrightarrow>
        q \<in> holders i N s' \<or> sending i m s' w q"
      "\<And>w. w \<in> N \<Longrightarrow> delivered_count s' w = (if w \<in> holders i N s' \<and> w \<noteq> origin then 1 else 0)"
  shows "broadcast_inv z N E origin i tp m out s'"
proof (rule inv_update [OF inv v _ _ _ rest])
  show "cl_node s' = (cl_node s)(v := t)" by (simp add: s')
  show "\<forall>x \<in> set (cl_log s'). snd x = EvMessage tp i out"
    using inv by (simp add: broadcast_inv_def s')
  show "(p, q, event) \<in># cl_flight s \<or>
      p \<in> holders i N s' \<and> q \<in> N \<and> (carries i m event \<or> is_prune event \<and> q \<in> holders i N s')"
    if "(p, q, event) \<in># cl_flight s'" for p q event
    using that in_diffD [of "(p, q, event)" "cl_flight s" "{#x#}"] by (simp add: s')
qed

lemma inv_send:
  assumes inv: "broadcast_inv z N E origin i tp m out s"
    and pop: "pt_pop (cl_node s v) = (Ready e, t)"
    and s': "s' = s\<lparr>cl_node := (cl_node s)(v := t), cl_flight := cl_flight s + on_wire v e,
                      cl_log := cl_log s @ to_application v e\<rparr>"
  shows "broadcast_inv z N E origin i tp m out s'"
proof -
  let ?t = "cl_node s v" and ?H = "holders i N s"
  obtain es where es: "pt_out_events ?t = e # es" and t: "t = ?t\<lparr>pt_out_events := es\<rparr>"
    using pop by (metis tree_queue.pop_Ready)
  have v: "v \<in> N" using inv es by (auto simp: broadcast_inv_def)
  have ok: "node_ok z i tp m out N ?H (E v) ?t" by (rule broadcast_inv_node [OF inv v])
  then have has: "has_message i ?t" using es by (auto simp: node_ok_def)
  have vH: "v \<in> ?H" using v has by (simp add: holders_def)
  have H: "holders i N s' = ?H"
    unfolding s' holders_upd using v has by (auto simp: t holders_def)
  have e: "(\<exists>q event. e = NotifyHandler q event \<and> q \<in> N \<and> (carries i m event \<or> is_prune event \<and> q \<in> ?H)) \<or>
      e = GenerateEvent (EvMessage tp i out)"
    using ok es by (simp add: node_ok_def)
  have "node_ok z i tp m out N ?H (E v) t"
    using ok has es by (auto simp: node_ok_def t decodes_at_def)
  moreover have "sending i m s' w q" if "sending i m s w q" for w q
  proof -
    from that obtain a where a: "carries i m a"
      "NotifyHandler q a \<in> set (pt_out_events (cl_node s w)) \<or> (w, q, a) \<in># cl_flight s"
      by (auto simp: sending_def)
    then have "NotifyHandler q a \<in> set (pt_out_events (cl_node s' w)) \<or> (w, q, a) \<in># cl_flight s'"
      using es by (cases "e = NotifyHandler q a") (auto simp: s' t)
    with a(1) show ?thesis by (auto simp: sending_def)
  qed
  moreover have "delivered_count s' w = delivered_count s w" for w
    using e es by (auto simp: delivered_count_def deliveries_at_def s' t)
  moreover have "\<forall>x \<in> set (cl_log s'). snd x = EvMessage tp i out"
    using inv e by (auto simp: broadcast_inv_def s')
  moreover have "(p, q, event) \<in># cl_flight s \<or>
      p \<in> ?H \<and> q \<in> N \<and> (carries i m event \<or> is_prune event \<and> q \<in> ?H)"
    if "(p, q, event) \<in># cl_flight s'" for p q event
    using that e vH by (auto simp: s')
  moreover have "cl_node s' = (cl_node s)(v := t)" by (simp add: s')
  ultimately show ?thesis
    using broadcast_inv_count [OF inv] by (intro inv_update [where v = v and t = t, OF inv v]) (auto simp: H)
qed

lemma sending_deliver:
  assumes "sending i m s w q" and "(p, v, event) \<in># cl_flight s"
    and "\<And>a. a \<in> set (pt_out_events (cl_node s v)) \<Longrightarrow> a \<in> set (pt_out_events t)"
    and "s' = s\<lparr>cl_node := (cl_node s)(v := t), cl_flight := cl_flight s - {#(p, v, event)#}\<rparr>"
  shows "sending i m s' w q \<or> w = p \<and> q = v \<and> carries i m event"
proof -
  from assms(1) obtain a where a: "carries i m a"
    "NotifyHandler q a \<in> set (pt_out_events (cl_node s w)) \<or> (w, q, a) \<in># cl_flight s"
    by (auto simp: sending_def)
  show ?thesis
  proof (cases "(w, q, a) = (p, v, event)")
    case False
    from other_in_flight [OF this] have
      "(w, q, a) \<in># cl_flight s - {#(p, v, event)#} \<longleftrightarrow> (w, q, a) \<in># cl_flight s" .
    with a assms(3) have "carries i m a \<and> (NotifyHandler q a \<in> set (pt_out_events (cl_node s' w)) \<or>
        (w, q, a) \<in># cl_flight s')"
      by (auto simp: assms(4))
    then show ?thesis by (auto simp: sending_def)
  qed (use a in simp)
qed

lemma inv_deliver_first:
  assumes inv: "broadcast_inv z N E origin i tp m out s"
    and flight: "(p, v, event) \<in># cl_flight s" and fresh: "\<not> has_message i (cl_node s v)"
    and call: "tree_call z clk p event (cl_node s v) = Inr t"
    and s': "s' = s\<lparr>cl_node := (cl_node s)(v := t), cl_flight := cl_flight s - {#(p, v, event)#}\<rparr>"
  shows "broadcast_inv z N E origin i tp m out s'"
proof -
  let ?t = "cl_node s v" and ?H = "holders i N s"
  have p: "p \<in> ?H" and v: "v \<in> N" and msg: "carries i m event \<or> is_prune event \<and> v \<in> ?H"
    by (rule broadcast_inv_flight [OF inv flight])+
  then have msg: "carries i m event" using fresh by (auto simp: holders_def)
  have ok: "node_ok z i tp m out N ?H (E v) ?t" by (rule broadcast_inv_node [OF inv v])
  then have eager: "pt_eager ?t = E v" and idle: "pt_out_events ?t = []" and dec: "decodes_at z tp m out ?t"
    using fresh by (simp_all add: node_ok_def)
  obtain h t1 where t1: "has_message i t1" "pt_config t1 = pt_config ?t" "pt_topic t1 = pt_topic ?t" "pt_out_events t1 = []"
    and t: "t = pt_push (GenerateEvent (EvMessage tp i out) #
        map (pt_notify ?t (Message i (h + 1) m)) (filter (\<lambda>q. q \<noteq> p) (E v))) t1"
    using receive_first [OF msg fresh dec, of clk p] call eager idle by auto
  have events: "pt_out_events t = GenerateEvent (EvMessage tp i out) #
        map (pt_notify ?t (Message i (h + 1) m)) (filter (\<lambda>q. q \<noteq> p) (E v))"
    by (simp add: t t1(4))
  have has: "has_message i t" and cfg: "pt_config t = pt_config ?t" "pt_topic t = pt_topic ?t"
    using t1(1-3) by (simp_all add: t)
  have H: "holders i N s' = insert v ?H" using v has by (auto simp: s' holders_def)
  have other: "v \<notin> ?H" using fresh by (simp add: holders_def)
  have forwarded: "carries i m (rpc_of (pt_topic ?t) (Message i (h + 1) m))" by (simp add: carries_def)
  have peers: "set (E v) \<subseteq> N" using inv v unfolding broadcast_inv_def by blast
  have "node_ok z i tp m out N (insert v ?H) (E v) t"
    using dec has cfg forwarded peers by (auto simp: node_ok_def events decodes_at_def pt_notify_def)
  moreover have "sending i m s' w q \<or> q \<in> insert v ?H" if "sending i m s w q" for w q
    using sending_deliver [OF that flight, of t s'] idle s' by auto
  moreover have "sending i m s' v q \<or> q \<in> ?H" if "q \<in> set (E v)" for q
    using that p forwarded by (cases "q = p") (auto simp: sending_def s' events pt_notify_def)
  moreover have "v \<noteq> origin" using inv other by (auto simp: broadcast_inv_def)
  moreover have "delivered_count s' w = (if w = v then delivered_count s v + 1 else delivered_count s w)" for w
    using idle by (simp add: delivered_count_def deliveries_at_def s' events pt_notify_def comp_def)
  ultimately show ?thesis
    using other broadcast_inv_count [OF inv] by (intro inv_deliver [OF inv v s']) (auto simp: H)
qed

lemma inv_deliver_again:
  assumes inv: "broadcast_inv z N E origin i tp m out s"
    and flight: "(p, v, event) \<in># cl_flight s" and held: "has_message i (cl_node s v)"
    and call: "tree_call z clk p event (cl_node s v) = Inr t"
    and s': "s' = s\<lparr>cl_node := (cl_node s)(v := t), cl_flight := cl_flight s - {#(p, v, event)#}\<rparr>"
  shows "broadcast_inv z N E origin i tp m out s'"
proof -
  let ?t = "cl_node s v" and ?H = "holders i N s"
  have p: "p \<in> ?H" and v: "v \<in> N" and msg: "carries i m event \<or> is_prune event \<and> v \<in> ?H"
    by (rule broadcast_inv_flight [OF inv flight])+
  have pN: "p \<in> N" using p by (simp add: holders_def)
  from msg have "carries i m event \<and> has_message i ?t \<or> is_prune event" using held by auto
  from receive_again [OF this, of z clk p] call obtain t1 es where
    t1: "has_message i t1" "pt_config t1 = pt_config ?t" "pt_topic t1 = pt_topic ?t" "pt_out_events t1 = pt_out_events ?t"
    and t: "t = pt_push es t1" and es: "es = [] \<or> es = [pt_notify ?t Prune p]"
    using held by auto
  have vH: "v \<in> ?H" using v held by (simp add: holders_def)
  have H: "holders i N s' = ?H" using v t1(1) held by (auto simp: s' holders_def t)
  have events: "pt_out_events t = pt_out_events ?t @ es" by (simp add: t t1(4))
  have "node_ok z i tp m out N ?H (E v) ?t" by (rule broadcast_inv_node [OF inv v])
  then have "node_ok z i tp m out N ?H (E v) t"
    using t1 es p pN held by (auto simp: node_ok_def events decodes_at_def t pt_notify_def is_prune_def)
  moreover have "sending i m s' w q \<or> q \<in> ?H" if "sending i m s w q" for w q
    using sending_deliver [OF that flight, of t s'] events s' vH by auto
  moreover have "delivered_count s' w = delivered_count s w" for w
    using es by (auto simp: delivered_count_def deliveries_at_def s' events pt_notify_def)
  ultimately show ?thesis
    using broadcast_inv_count [OF inv] by (intro inv_deliver [OF inv v s']) (auto simp: H)
qed

lemma broadcast_inv_step:
  assumes "cluster_step z s s'" and "broadcast_inv z N E origin i tp m out s"
  shows "broadcast_inv z N E origin i tp m out s'"
  using assms(1)
proof cases
  case (cluster_send v e t)
  with inv_send [OF assms(2)] show ?thesis by blast
next
  case (cluster_deliver p v event clk t)
  show ?thesis
  proof (cases "has_message i (cl_node s v)")
    case True
    from inv_deliver_again [OF assms(2) cluster_deliver(2) True cluster_deliver(3,1)] show ?thesis .
  next
    case False
    from inv_deliver_first [OF assms(2) cluster_deliver(2) False cluster_deliver(3,1)] show ?thesis .
  qed
qed

abbreviation initial_eager :: "cluster \<Rightarrow> peer_id \<Rightarrow> peer_id list" where
  "initial_eager s v \<equiv> pt_eager (cl_node s v)"

lemma broadcast_inv_published:
  assumes rest: "at_rest z N i tp m out s" and origin: "origin \<in> N"
  shows "broadcast_inv z N (initial_eager s) origin i tp m out (published now origin i m s)"
proof -
  let ?t = "cl_node s origin" and ?s = "published now origin i m s"
  define t where "t = publish_message now i m ?t"
  have none: "cache_get i (pt_received (cl_node s v)) = None" if "v \<in> N" for v
    using rest that by (simp add: at_rest_def)
  have seen: "cache_get i (pt_observed ?t) = None" using rest origin by (simp add: at_rest_def)
  have idle: "pt_out_events (cl_node s v) = []" for v using rest by (simp add: at_rest_def)
  have events: "pt_out_events t = map (pt_notify ?t (Message i 1 m)) (pt_eager ?t)"
    using none [OF origin] seen idle by (simp add: t_def publish_message_def Let_def message_of_record_def)
  have t: "has_message i t" "pt_config t = pt_config ?t" "pt_topic t = pt_topic ?t"
    using none [OF origin] seen
    by (simp_all add: t_def publish_message_def Let_def has_message_def received_store.lookup_insert)
  have node: "cl_node ?s = (cl_node s)(origin := t)" by (simp add: published_def t_def)
  have H: "holders i N ?s = {origin}"
    using origin none t(1) by (auto simp: holders_def node has_message_def)
  have quiet: "cl_flight ?s = {#}" "cl_log ?s = []" using rest by (simp_all add: at_rest_def published_def)
  have forwarded: "carries i m (rpc_of (pt_topic ?t) (Message i 1 m))" by (simp add: carries_def)
  have dec: "decodes_at z tp m out (cl_node s v)" if "v \<in> N" for v using rest that by (simp add: at_rest_def)
  have peers: "\<forall>v \<in> N. set (initial_eager s v) \<subseteq> N" using rest by (simp add: at_rest_def)
  have "node_ok z i tp m out N {origin} (initial_eager s v) (cl_node ?s v)" if "v \<in> N" for v
    using dec [OF that] dec [OF origin] none [OF that] idle t peers origin forwarded
    by (auto simp: node_ok_def node events decodes_at_def has_message_def pt_notify_def)
  moreover have "sending i m ?s origin q" if "q \<in> set (pt_eager ?t)" for q
    using that forwarded by (auto simp: sending_def node events pt_notify_def)
  moreover have "delivered_count ?s v = 0" for v
    using idle by (simp add: delivered_count_def deliveries_at_def quiet node events pt_notify_def comp_def)
  moreover have "pt_out_events (cl_node ?s v) = []" if "v \<notin> N" for v
    using that idle origin by (auto simp: node)
  ultimately show ?thesis
    using peers unfolding broadcast_inv_def H by (auto simp: quiet)
qed

lemma broadcast_inv_steps:
  assumes "(cluster_step z)\<^sup>*\<^sup>* s s'" and "broadcast_inv z N E origin i tp m out s"
  shows "broadcast_inv z N E origin i tp m out s'"
  using assms by (induction rule: rtranclp_induct) (auto intro: broadcast_inv_step)

subsection \<open>A cluster that cannot move has finished\<close>

lemma deliver_enabled:
  assumes inv: "broadcast_inv z N E origin i tp m out s" and flight: "(p, v, event) \<in># cl_flight s"
  shows "\<exists>s'. cluster_step z s s'"
proof -
  have v: "v \<in> N" and msg: "carries i m event \<or> is_prune event \<and> v \<in> holders i N s"
    by (rule broadcast_inv_flight [OF inv flight])+
  have dec: "decodes_at z tp m out (cl_node s v)"
    using broadcast_inv_node [OF inv v] by (simp add: node_ok_def)
  have "\<exists>t. tree_call z (\<lambda>_. 0) p event (cl_node s v) = Inr t"
  proof (cases "carries i m event \<and> \<not> has_message i (cl_node s v)")
    case True
    then show ?thesis using receive_first [OF _ _ dec, of i event "\<lambda>_. 0" p] by blast
  next
    case False
    then show ?thesis using msg receive_again [of i m event "cl_node s v" z "\<lambda>_. 0" p] by blast
  qed
  then show ?thesis using cluster_deliver [OF flight] by blast
qed

lemma stuck_is_quiet:
  assumes "broadcast_inv z N E origin i tp m out s" and stuck: "\<nexists>s'. cluster_step z s s'"
  shows "cl_flight s = {#}" and "pt_out_events (cl_node s v) = []"
proof -
  show "cl_flight s = {#}" using deliver_enabled [OF assms(1)] stuck by (metis prod_cases3 multiset_nonemptyE)
  show "pt_out_events (cl_node s v) = []"
  proof (rule ccontr)
    assume "pt_out_events (cl_node s v) \<noteq> []"
    then obtain e es where "pt_out_events (cl_node s v) = e # es" by (auto simp: neq_Nil_conv)
    from cluster_send [OF tree_queue.pop_cons [OF this]] stuck show False by blast
  qed
qed

lemma stuck_is_complete:
  assumes inv: "broadcast_inv z N E origin i tp m out s" and stuck: "\<nexists>s'. cluster_step z s s'"
    and path: "(origin, v) \<in> {(u, w). w \<in> set (E u)}\<^sup>*"
  shows "v \<in> holders i N s"
  using path
proof (induction rule: rtrancl_induct)
  case base
  show ?case using inv by (simp add: broadcast_inv_def)
next
  case (step u w)
  then have "w \<in> holders i N s \<or> sending i m s u w" using inv unfolding broadcast_inv_def by blast
  then show ?case using stuck_is_quiet [OF inv stuck] by (auto simp: sending_def)
qed

lemma deliveries_of_count:
  assumes inv: "broadcast_inv z N E origin i tp m out s" and "v \<in> N"
  shows "deliveries_at s v = [] \<or> v \<noteq> origin \<and> v \<in> holders i N s \<and> deliveries_at s v = [EvMessage tp i out]"
proof -
  have same: "set (deliveries_at s v) \<subseteq> {EvMessage tp i out}"
    using inv by (auto simp: broadcast_inv_def deliveries_at_def)
  have "length (deliveries_at s v) \<le> (if v \<in> holders i N s \<and> v \<noteq> origin then 1 else 0)"
    using broadcast_inv_count [OF assms] by (simp add: delivered_count_def)
  with same show ?thesis by (cases "deliveries_at s v") (auto split: if_splits)
qed

lemma deliveries_when_quiet:
  assumes inv: "broadcast_inv z N E origin i tp m out s" and stuck: "\<nexists>s'. cluster_step z s s'"
    and v: "v \<in> holders i N s" "v \<noteq> origin"
  shows "deliveries_at s v = [EvMessage tp i out]"
proof -
  have "v \<in> N" using v(1) by (simp add: holders_def)
  then have "length (deliveries_at s v) = 1"
    using broadcast_inv_count [OF inv] stuck_is_quiet(2) [OF inv stuck] v by (simp add: delivered_count_def)
  with deliveries_of_count [OF inv \<open>v \<in> N\<close>] show ?thesis by auto
qed

subsection \<open>A broadcast ends\<close>

text \<open>
  What a broadcast still has to do, in steps: a copy of the message costs its sending, its receipt and at
  most a \<open>Prune\<close> sent and received in answer; a first receipt is a delivery besides, but spares the copy
  that goes back.
\<close>

definition queue_cost :: "u64 \<Rightarrow> bytes \<Rightarrow> action \<Rightarrow> nat" where
  "queue_cost i m a = (case a of NotifyHandler q event \<Rightarrow> if carries i m event then 4 else 2 | _ \<Rightarrow> 1)"

definition flight_cost :: "u64 \<Rightarrow> bytes \<Rightarrow> peer_id \<times> peer_id \<times> rpc \<Rightarrow> nat" where
  "flight_cost i m x = (if carries i m (snd (snd x)) then 3 else 1)"

definition node_cost :: "u64 \<Rightarrow> bytes \<Rightarrow> peer_id list \<Rightarrow> plumtree \<Rightarrow> nat" where
  "node_cost i m es t =
     (if has_message i t then 0 else 4 * length es) + sum_list (map (queue_cost i m) (pt_out_events t))"

definition cost :: "peer_id set \<Rightarrow> (peer_id \<Rightarrow> peer_id list) \<Rightarrow> u64 \<Rightarrow> bytes \<Rightarrow> cluster \<Rightarrow> nat" where
  "cost N E i m s =
     (\<Sum>v\<in>N. node_cost i m (E v) (cl_node s v)) + (\<Sum>x\<in>#cl_flight s. flight_cost i m x)"

lemma nodes_cost_update:
  assumes "finite N" and "v \<in> N"
  shows "(\<Sum>w\<in>N. node_cost i m (E w) ((f(v := t)) w)) + node_cost i m (E v) (f v) =
    (\<Sum>w\<in>N. node_cost i m (E w) (f w)) + node_cost i m (E v) t"
proof -
  have "(\<Sum>w\<in>N - {v}. node_cost i m (E w) ((f(v := t)) w)) = (\<Sum>w\<in>N - {v}. node_cost i m (E w) (f w))"
    by (rule sum.cong) auto
  with sum.remove [OF assms, of "\<lambda>w. node_cost i m (E w) ((f(v := t)) w)"]
    sum.remove [OF assms, of "\<lambda>w. node_cost i m (E w) (f w)"]
  show ?thesis by simp
qed

lemma cost_send:
  assumes inv: "broadcast_inv z N E origin i tp m out s" and fin: "finite N"
    and pop: "pt_pop (cl_node s v) = (Ready e, t)"
    and s': "s' = s\<lparr>cl_node := (cl_node s)(v := t), cl_flight := cl_flight s + on_wire v e,
                      cl_log := cl_log s @ to_application v e\<rparr>"
  shows "cost N E i m s' < cost N E i m s"
proof -
  obtain es where es: "pt_out_events (cl_node s v) = e # es" and t: "t = (cl_node s v)\<lparr>pt_out_events := es\<rparr>"
    using pop by (metis tree_queue.pop_Ready)
  have v: "v \<in> N" using inv es by (auto simp: broadcast_inv_def)
  have "node_cost i m (E v) (cl_node s v) = node_cost i m (E v) t + queue_cost i m e"
    by (simp add: node_cost_def t es)
  moreover have "(\<Sum>x\<in>#on_wire v e. flight_cost i m x) < queue_cost i m e"
    by (cases e) (auto simp: queue_cost_def flight_cost_def)
  ultimately show ?thesis
    using nodes_cost_update [OF fin v, of i m E "cl_node s" t] by (simp add: cost_def s')
qed

lemma cost_deliver:
  assumes inv: "broadcast_inv z N E origin i tp m out s" and fin: "finite N"
    and flight: "(p, v, event) \<in># cl_flight s" and call: "tree_call z clk p event (cl_node s v) = Inr t"
    and s': "s' = s\<lparr>cl_node := (cl_node s)(v := t), cl_flight := cl_flight s - {#(p, v, event)#}\<rparr>"
  shows "cost N E i m s' < cost N E i m s"
proof -
  let ?t = "cl_node s v"
  have v: "v \<in> N" and msg: "carries i m event \<or> is_prune event \<and> v \<in> holders i N s"
    by (rule broadcast_inv_flight [OF inv flight])+
  have ok: "node_ok z i tp m out N (holders i N s) (E v) ?t" by (rule broadcast_inv_node [OF inv v])
  have step: "node_cost i m (E v) t < node_cost i m (E v) ?t + flight_cost i m (p, v, event)"
  proof (cases "carries i m event \<and> \<not> has_message i ?t")
    case True
    then have "pt_eager ?t = E v" "pt_out_events ?t = []" "decodes_at z tp m out ?t"
      using ok by (simp_all add: node_ok_def)
    with True receive_first [of i m event ?t z tp out clk p] call obtain h t1
      where "has_message i t1" "pt_out_events t1 = []" and t: "t = pt_push (GenerateEvent (EvMessage tp i out) #
        map (pt_notify ?t (Message i (h + 1) m)) (filter (\<lambda>q. q \<noteq> p) (E v))) t1"
      by auto
    moreover have "carries i m (rpc_of (pt_topic ?t) (Message i (h + 1) m))" by (simp add: carries_def)
    ultimately have "node_cost i m (E v) t = 1 + 4 * length (filter (\<lambda>q. q \<noteq> p) (E v))"
      by (simp add: node_cost_def queue_cost_def pt_notify_def comp_def sum_list_triv)
    moreover have "node_cost i m (E v) ?t \<ge> 4 * length (E v)" "flight_cost i m (p, v, event) = 3"
      using True by (simp_all add: node_cost_def flight_cost_def)
    moreover have "length (filter (\<lambda>q. q \<noteq> p) (E v)) \<le> length (E v)" by simp
    ultimately show ?thesis by linarith
  next
    case False
    then have "carries i m event \<and> has_message i ?t \<or> is_prune event" using msg by blast
    from receive_again [OF this, of z clk p] call obtain t1 es where
      t1: "has_message i t1 = has_message i ?t" "pt_out_events t1 = pt_out_events ?t" and t: "t = pt_push es t1"
      and es: "es = [] \<or> carries i m event \<and> es = [pt_notify ?t Prune p]"
      by auto
    have "node_cost i m (E v) t = node_cost i m (E v) ?t + sum_list (map (queue_cost i m) es)"
      using t1 by (simp add: node_cost_def t)
    moreover have "sum_list (map (queue_cost i m) es) < flight_cost i m (p, v, event)"
      using es by (auto simp: queue_cost_def flight_cost_def pt_notify_def carries_def)
    ultimately show ?thesis by simp
  qed
  have "cl_flight s = add_mset (p, v, event) (cl_flight s - {#(p, v, event)#})" using flight by simp
  then have "(\<Sum>x\<in>#cl_flight s. flight_cost i m x) =
      flight_cost i m (p, v, event) + (\<Sum>x\<in>#cl_flight s - {#(p, v, event)#}. flight_cost i m x)"
    by (metis image_mset_add_mset sum_mset.add_mset)
  with step nodes_cost_update [OF fin v, of i m E "cl_node s" t] show ?thesis
    by (simp add: cost_def s')
qed

lemma cost_step:
  assumes "cluster_step z s s'" and "broadcast_inv z N E origin i tp m out s" and "finite N"
  shows "cost N E i m s' < cost N E i m s"
  using assms(1)
proof cases
  case (cluster_send v e t)
  with cost_send [OF assms(2,3)] show ?thesis by blast
next
  case (cluster_deliver p v event clk t)
  from cost_deliver [OF assms(2,3) cluster_deliver(2,3,1)] show ?thesis .
qed

lemma cost_steps:
  assumes "(cluster_step z ^^ n) s s'" and "broadcast_inv z N E origin i tp m out s" and "finite N"
  shows "n + cost N E i m s' \<le> cost N E i m s"
  using assms(1)
proof (induction n arbitrary: s')
  case (Suc n)
  then obtain s1 where s1: "(cluster_step z ^^ n) s s1" "cluster_step z s1 s'" by auto
  then have "broadcast_inv z N E origin i tp m out s1"
    using broadcast_inv_steps [OF relpowp_imp_rtranclp assms(2)] by blast
  from cost_step [OF s1(2) this assms(3)] Suc.IH [OF s1(1)] show ?case by simp
qed simp

lemma cost_published:
  assumes rest: "at_rest z N i tp m out s" and origin: "origin \<in> N"
  shows "cost N (initial_eager s) i m (published now origin i m s) = 4 * (\<Sum>v\<in>N. length (initial_eager s v))"
proof -
  let ?t = "cl_node s origin"
  define t where "t = publish_message now i m ?t"
  have fin: "finite N" and quiet: "cl_flight s = {#}" and idle: "pt_out_events (cl_node s v) = []" for v
    using rest by (simp_all add: at_rest_def)
  have none: "cache_get i (pt_received (cl_node s v)) = None" if "v \<in> N" for v
    using rest that by (simp add: at_rest_def)
  have seen: "cache_get i (pt_observed ?t) = None" using rest origin by (simp add: at_rest_def)
  have "carries i m (rpc_of (pt_topic ?t) (Message i 1 m))" by (simp add: carries_def)
  then have "node_cost i m es t = 4 * length (pt_eager ?t)" for es
    using none [OF origin] seen idle
    by (simp add: t_def publish_message_def Let_def message_of_record_def node_cost_def has_message_def
        received_store.lookup_insert queue_cost_def pt_notify_def comp_def sum_list_triv)
  moreover have fresh: "node_cost i m es (cl_node s v) = 4 * length es" if "v \<in> N" for v es
    using none [OF that] idle by (simp add: node_cost_def has_message_def)
  ultimately have "node_cost i m (initial_eager s v) (((cl_node s)(origin := t)) v) = 4 * length (initial_eager s v)"
    if "v \<in> N" for v
    using that by simp
  then show ?thesis by (simp add: cost_def published_def quiet sum_distrib_left flip: t_def)
qed

text \<open>So it comes to rest: from any state the invariant allows, some run cannot be continued.\<close>

lemma broadcast_quiesces:
  assumes "broadcast_inv z N E origin i tp m out s" and "finite N"
  shows "\<exists>s'. (cluster_step z)\<^sup>*\<^sup>* s s' \<and> (\<nexists>s''. cluster_step z s' s'')"
  using assms(1)
proof (induction "cost N E i m s" arbitrary: s rule: less_induct)
  case less
  show ?case
  proof (cases "\<exists>s1. cluster_step z s s1")
    case True
    then obtain s1 where s1: "cluster_step z s s1" by blast
    from less.hyps [OF cost_step [OF s1 less.prems assms(2)] broadcast_inv_step [OF s1 less.prems]] s1
    show ?thesis by (meson converse_rtranclp_into_rtranclp)
  qed blast
qed

subsection \<open>The two properties\<close>

text \<open>
  C1. A message published at one node of a cluster at rest is, in every interleaving of the nodes' queues
  and the wire's deliveries, handed to the application at most once at each other node and never at the
  publisher; and once nothing is left to do it has been handed over, decoded, exactly once at every node
  that the publisher reaches along eager links.
\<close>

theorem broadcast_reaches_all:
  assumes "at_rest z N i tp m out s" and "origin \<in> N"
    and "(cluster_step z)\<^sup>*\<^sup>* (published now origin i m s) s'"
  shows "(\<forall>v \<in> N. deliveries_at s' v = [] \<or> v \<noteq> origin \<and> deliveries_at s' v = [EvMessage tp i out]) \<and>
    ((\<nexists>s''. cluster_step z s' s'') \<longrightarrow>
      (\<forall>v. v \<noteq> origin \<and> (origin, v) \<in> {(u, w). w \<in> set (pt_eager (cl_node s u))}\<^sup>* \<longrightarrow>
        deliveries_at s' v = [EvMessage tp i out]))"
proof -
  have inv: "broadcast_inv z N (initial_eager s) origin i tp m out s'"
    using broadcast_inv_steps [OF assms(3) broadcast_inv_published [OF assms(1,2)]] .
  show ?thesis
    using deliveries_of_count [OF inv] deliveries_when_quiet [OF inv] stuck_is_complete [OF inv] by blast
qed

definition line_tree :: "nat \<Rightarrow> nat list \<Rightarrow> plumtree" where
  "line_tree v es = (new_tree ''t'' default_config (PeerId [of_nat v]) 0)\<lparr>pt_eager := map (\<lambda>q. PeerId [of_nat q]) es\<rparr>"

text \<open>Three nodes in a line, the first and the last not linked to each other.\<close>

definition line_cluster :: cluster where
  "line_cluster =
     \<lparr>cl_node = (\<lambda>v. if v = PeerId [1] then line_tree 1 [2] else if v = PeerId [2] then line_tree 2 [1, 3]
                  else if v = PeerId [3] then line_tree 3 [2] else line_tree 0 []),
      cl_flight = {#}, cl_log = []\<rparr>"

lemma line_at_rest:
  "at_rest tag_zstd {PeerId [1], PeerId [2], PeerId [3]} 7 ''t'' [40, 9] [9] line_cluster"
  by (simp add: at_rest_def line_cluster_def line_tree_def new_tree_def decodes_at_def tag_zstd_def default_config_def)

theorem broadcast_reaches_all_witness:
  "\<exists>s'. (cluster_step tag_zstd)\<^sup>*\<^sup>* (published 0 (PeerId [1]) 7 [40, 9] line_cluster) s' \<and>
     deliveries_at s' (PeerId [1]) = [] \<and> deliveries_at s' (PeerId [3]) = [EvMessage ''t'' 7 [9]]"
proof -
  let ?N = "{PeerId [1], PeerId [2], PeerId [3]}" and ?s = "published 0 (PeerId [1]) 7 [40, 9] line_cluster"
  obtain s' where s': "(cluster_step tag_zstd)\<^sup>*\<^sup>* ?s s'" "\<nexists>s''. cluster_step tag_zstd s' s''"
    using broadcast_quiesces [OF broadcast_inv_published [OF line_at_rest]] by blast
  let ?R = "{(u, w). w \<in> set (pt_eager (cl_node line_cluster u))}"
  have "(PeerId [1], PeerId [2]) \<in> ?R" "(PeerId [2], PeerId [3]) \<in> ?R"
    by (simp_all add: line_cluster_def line_tree_def)
  then have "(PeerId [1], PeerId [3]) \<in> ?R\<^sup>*" by (blast intro: rtrancl.intros)
  with broadcast_reaches_all [OF line_at_rest _ s'(1)] s'(2) have
    "deliveries_at s' (PeerId [3]) = [EvMessage ''t'' 7 [9]]" by simp
  moreover have "deliveries_at s' (PeerId [1]) = []"
    using broadcast_reaches_all [OF line_at_rest _ s'(1), THEN conjunct1] by simp
  ultimately show ?thesis using s'(1) by blast
qed

text \<open>
  C8. Every run after a publication ends: it has at most four steps for each eager link of the cluster,
  so a cycle of eager links cannot keep a message going round.
\<close>

theorem broadcast_terminates:
  assumes "at_rest z N i tp m out s" and "origin \<in> N"
    and "(cluster_step z ^^ n) (published now origin i m s) s'"
  shows "n \<le> 4 * (\<Sum>v\<in>N. length (pt_eager (cl_node s v)))"
proof -
  have "finite N" using assms(1) by (simp add: at_rest_def)
  with cost_steps [OF assms(3) broadcast_inv_published [OF assms(1,2)]] cost_published [OF assms(1,2), of now]
  show ?thesis by simp
qed

theorem broadcast_terminates_witness:
  "\<exists>n s'. (cluster_step tag_zstd ^^ n) (published 0 (PeerId [1]) 7 [40, 9] line_cluster) s' \<and>
     (\<nexists>s''. cluster_step tag_zstd s' s'') \<and> n \<le> 16"
proof -
  obtain s' where s': "(cluster_step tag_zstd)\<^sup>*\<^sup>* (published 0 (PeerId [1]) 7 [40, 9] line_cluster) s'"
    and stuck: "\<nexists>s''. cluster_step tag_zstd s' s''"
    using broadcast_quiesces [OF broadcast_inv_published [OF line_at_rest]] by blast
  then obtain n where n: "(cluster_step tag_zstd ^^ n) (published 0 (PeerId [1]) 7 [40, 9] line_cluster) s'"
    using rtranclp_imp_relpowp by metis
  moreover have "n \<le> 16"
    using broadcast_terminates [OF line_at_rest _ n] by (simp add: line_cluster_def line_tree_def)
  ultimately show ?thesis using stuck by blast
qed

end
