(* ===== verification/Behaviour.thy ===== *)
theory Behaviour
  imports Topic_Properties
begin

section \<open>The network behaviour\<close>

text \<open>
  \<open>src/src/network/episub/behaviour.rs\<close>: the state of \<open>Episub\<close> and one definition per method and per
  callback of \<open>NetworkBehaviour\<close>. The map of topics is an association list in iteration order; the map
  of addresses is only looked up. Calls that act on several topics take one entropy source per topic.
  The swarm's endpoints, dial errors and poll parameters keep the parts the code looks at.
\<close>

datatype connected_point = Dialer multiaddr | Listener multiaddr

datatype dial_error = DialPeerConditionFalse | Other_Dial_Error

record poll_params =
  pp_external_addresses :: "multiaddr list"
  pp_listened_addresses :: "multiaddr list"
  pp_local_peer_id :: peer_id

record episub =
  ep_config :: config
  ep_local_node :: "addressable_peer option"
  ep_topics :: "(string \<times> topic_mesh) list"
  ep_banned_peers :: "peer_id list"
  ep_pending_topics :: "string list"
  ep_out_events :: "action list"
  ep_peer_addresses :: "peer_id \<rightharpoonup> multiaddr"
  ep_early_peers :: "peer_id list"

definition new_episub :: "config \<Rightarrow> episub" where
  "new_episub c =
     \<lparr>ep_config = c, ep_local_node = None, ep_topics = [], ep_banned_peers = [], ep_pending_topics = [],
      ep_out_events = [], ep_peer_addresses = Map.empty, ep_early_peers = []\<rparr>"

definition default_episub :: episub where
  "default_episub = new_episub default_config"

definition ep_push :: "action \<Rightarrow> episub \<Rightarrow> episub" where
  "ep_push a s = s\<lparr>ep_out_events := ep_out_events s @ [a]\<rparr>"

text \<open>A method of every mesh, each under its own number in the iteration.\<close>

definition each_topic :: "(nat \<Rightarrow> string \<Rightarrow> topic_mesh \<Rightarrow> topic_mesh) \<Rightarrow> episub \<Rightarrow> episub" where
  "each_topic f s =
     s\<lparr>ep_topics := map (\<lambda>(k, t, m). (t, f k t m)) (zip [0..<length (ep_topics s)] (ep_topics s))\<rparr>"

subsection \<open>Addresses\<close>

definition ipv4_localhost :: u32 where "ipv4_localhost = 0x7F000001"

definition is_local_address :: "multiaddr \<Rightarrow> bool" where
  "is_local_address addr =
     list_ex (\<lambda>p. case p of
                Ip4 a \<Rightarrow> a = ipv4_localhost \<or> a = 0
              | Ip6 a \<Rightarrow> a = 1 \<or> a = 0
              | _ \<Rightarrow> False) addr"

definition inject_new_listen_addr :: "multiaddr \<Rightarrow> episub \<Rightarrow> episub" where
  "inject_new_listen_addr addr s =
     (if \<not> is_local_address addr then
        (case ep_local_node s of
           Some n \<Rightarrow> s\<lparr>ep_local_node := Some (n\<lparr>addresses := hs_insert id addr (addresses n)\<rparr>)\<rparr>
         | None \<Rightarrow> s)
      else s)"

definition inject_expired_listen_addr :: "multiaddr \<Rightarrow> episub \<Rightarrow> episub" where
  "inject_expired_listen_addr addr s =
     (case ep_local_node s of
        Some n \<Rightarrow> s\<lparr>ep_local_node := Some (n\<lparr>addresses := filter (\<lambda>a. a \<noteq> addr) (addresses n)\<rparr>)\<rparr>
      | None \<Rightarrow> s)"

subsection \<open>Bans and joins\<close>

definition force_disconnect :: "peer_id \<Rightarrow> connection_id \<Rightarrow> episub \<Rightarrow> episub" where
  "force_disconnect p c = ep_push (CloseConnection p c)"

definition ban_peer :: "peer_id \<Rightarrow> connection_id \<Rightarrow> episub \<Rightarrow> episub" where
  "ban_peer p c s =
     force_disconnect p c
       (s\<lparr>ep_peer_addresses := (ep_peer_addresses s)(p := None),
          ep_banned_peers := hs_insert id p (ep_banned_peers s)\<rparr>)"

text \<open>The filter of \<open>request_join_for_starving_topics\<close>.\<close>

definition wants_join :: "episub \<Rightarrow> peer_id \<Rightarrow> string \<Rightarrow> topic_mesh \<Rightarrow> bool" where
  "wants_join s p t m \<longleftrightarrow>
     starved (tm_nodes m) \<and> \<not> is_active (tm_nodes m) p \<and> allow (ep_config s) t p"

text \<open>The address is unwrapped for each topic that passes the filter, so with none it is not looked at.\<close>

definition request_join_for_starving_topics :: "wire_codec \<Rightarrow> peer_id \<Rightarrow> episub \<Rightarrow> panic + episub" where
  "request_join_for_starving_topics w p s =
     (if list_ex (\<lambda>(t, m). wants_join s p t m) (ep_topics s) then
        (case ep_peer_addresses s p of
           None \<Rightarrow> Inl Unwrap_None
         | Some addr \<Rightarrow>
             Inr (each_topic (\<lambda>_ t m. if wants_join s p t m
                    then mesh_initiate_join w \<lparr>peer_id = p, addresses = [addr]\<rparr> m else m) s))
      else Inr s)"

subsection \<open>Subscriptions and publishing\<close>

definition send_message :: "peer_id \<Rightarrow> rpc \<Rightarrow> episub \<Rightarrow> episub" where
  "send_message p message = ep_push (NotifyHandler p message)"

declare send_message_def [simp]

definition subscribe :: "clock \<Rightarrow> string \<Rightarrow> episub \<Rightarrow> bool \<times> episub" where
  "subscribe clk topic s =
     (case map_of (ep_topics s) topic of
        Some m \<Rightarrow> (False, s)
      | None \<Rightarrow>
          (True,
           case ep_local_node s of
             Some n \<Rightarrow>
               ep_push (GenerateEvent (Subscribed topic))
                 (s\<lparr>ep_topics := ep_topics s @ [(topic, new_mesh topic (ep_config s) n clk)]\<rparr>)
           | None \<Rightarrow> s\<lparr>ep_pending_topics := hs_insert id topic (ep_pending_topics s)\<rparr>))"

definition unsubscribe :: "string \<Rightarrow> episub \<Rightarrow> bool \<times> episub" where
  "unsubscribe topic s =
     (case map_of (ep_topics s) topic of
        None \<Rightarrow> (False, s)
      | Some mesh \<Rightarrow>
          let s = s\<lparr>ep_pending_topics := hs_remove id topic (ep_pending_topics s),
                    ep_topics := filter (\<lambda>(t, m). t \<noteq> topic) (ep_topics s)\<rparr>;
              s = foldl (\<lambda>s p. send_message (peer_id p) (rpc_of topic (Disconnect False)) s) s
                    (hv_active (tm_nodes mesh))
          in (True, ep_push (GenerateEvent (Unsubscribed topic)) s))"

definition update_topic :: "string \<Rightarrow> topic_mesh \<Rightarrow> episub \<Rightarrow> episub" where
  "update_topic t m s = s\<lparr>ep_topics := AList.update t m (ep_topics s)\<rparr>"

definition publish ::
  "zstd \<Rightarrow> entropy \<Rightarrow> instant \<Rightarrow> string \<Rightarrow> bytes \<Rightarrow> episub \<Rightarrow> (publish_error + u64) \<times> episub" where
  "publish z r now topic message s =
     (case map_of (ep_topics s) topic of
        Some mesh \<Rightarrow>
          let i = gen_u64 r 0
          in case (if enable_compression (ep_config s)
                   then encode_all z (compression_level (ep_config s)) message else Inr message) of
               Inl e \<Rightarrow> (Inl (Publish_Io e), s)
             | Inr message \<Rightarrow> (Inr i, update_topic topic (mesh_publish now i message mesh) s)
      | None \<Rightarrow> (Inl TopicNotSubscribed, s))"

subsection \<open>Connections\<close>

definition inject_connection_established ::
  "wire_codec \<Rightarrow> peer_id \<Rightarrow> connection_id \<Rightarrow> connected_point \<Rightarrow> episub \<Rightarrow> panic + episub" where
  "inject_connection_established w p c endpoint s =
     (if hs_contains id p (ep_banned_peers s) then Inr (force_disconnect p c s)
      else
        let s = s\<lparr>ep_peer_addresses := (ep_peer_addresses s)
                    (p \<mapsto> (case endpoint of Dialer a \<Rightarrow> a | Listener a \<Rightarrow> a))\<rparr>
        in case endpoint of
             Dialer _ \<Rightarrow>
               if ep_local_node s \<noteq> None then request_join_for_starving_topics w p s
               else Inr (s\<lparr>ep_early_peers := hs_insert id p (ep_early_peers s)\<rparr>)
           | Listener _ \<Rightarrow> Inr s)"

definition inject_dial_failure ::
  "(nat \<Rightarrow> entropy) \<Rightarrow> peer_id option \<Rightarrow> dial_error \<Rightarrow> episub \<Rightarrow> episub" where
  "inject_dial_failure rs peer error s =
     (if error \<noteq> DialPeerConditionFalse then
        (case peer of
           Some p \<Rightarrow> each_topic (\<lambda>k _ m. disconnected (rs k) p False m) s
         | None \<Rightarrow> s)
      else s)"

definition inject_connection_closed :: "(nat \<Rightarrow> entropy) \<Rightarrow> peer_id \<Rightarrow> episub \<Rightarrow> episub" where
  "inject_connection_closed rs p s = each_topic (\<lambda>k _ m. disconnected (rs k) p True m) s"

subsection \<open>Messages\<close>

definition inject_event ::
  "wire_codec \<Rightarrow> zstd \<Rightarrow> entropy \<Rightarrow> clock \<Rightarrow> peer_id \<Rightarrow> connection_id \<Rightarrow> rpc \<Rightarrow> episub
     \<Rightarrow> panic + episub" where
  "inject_event w z r clk p c event s =
     (if hs_contains id p (ep_banned_peers s) then Inr (force_disconnect p c s)
      else if \<not> allow (ep_config s) (rpc_topic event) p then Inr (force_disconnect p c s)
      else if rpc_action event = None then Inr (ban_peer p c s)
      else
        (case map_of (ep_topics s) (rpc_topic event) of
           Some mesh \<Rightarrow>
             on_ok (inject_rpc_call w z r clk p event mesh)
               (\<lambda>(res, mesh).
                  let s = update_topic (rpc_topic event) mesh s
                  in Inr (case res of Inl error \<Rightarrow> ban_peer p c s | Inr _ \<Rightarrow> s))
         | None \<Rightarrow>
             Inr (force_disconnect p c
               (ep_push (NotifyHandler p (rpc_of (rpc_topic event) (Disconnect False))) s))))"

subsection \<open>Polling\<close>

definition local_addresses :: "poll_params \<Rightarrow> multiaddr list" where
  "local_addresses params =
     hs_collect id (filter (\<lambda>a. \<not> is_local_address a)
       (pp_external_addresses params @ pp_listened_addresses params))"

text \<open>The pending topics become meshes; the clock is read three times for each.\<close>

definition activate_topics ::
  "clock \<Rightarrow> config \<Rightarrow> addressable_peer \<Rightarrow> string list \<Rightarrow> (string \<times> topic_mesh) list
     \<Rightarrow> (string \<times> topic_mesh) list" where
  "activate_topics clk c n pending topics =
     foldl (\<lambda>ts (k, topic).
         if map_of ts topic \<noteq> None then ts
         else ts @ [(topic, new_mesh topic c n (clock_from clk (3 * k)))])
       topics (zip [0..<length pending] pending)"

definition activate_pending :: "clock \<Rightarrow> addressable_peer \<Rightarrow> episub \<Rightarrow> episub" where
  "activate_pending clk n s =
     s\<lparr>ep_topics := activate_topics clk (ep_config s) n (ep_pending_topics s) (ep_topics s),
       ep_pending_topics := []\<rparr>"

fun join_early :: "wire_codec \<Rightarrow> peer_id list \<Rightarrow> episub \<Rightarrow> panic + episub" where
  "join_early w [] s = Inr s"
| "join_early w (p # ps) s = on_ok (request_join_for_starving_topics w p s) (join_early w ps)"

definition update_local_node_info ::
  "wire_codec \<Rightarrow> clock \<Rightarrow> poll_params \<Rightarrow> episub \<Rightarrow> panic + episub" where
  "update_local_node_info w clk params s =
     (if ep_local_node s = None then
        let addrs = local_addresses params
        in if addrs \<noteq> [] then
             let n = \<lparr>peer_id = pp_local_peer_id params, addresses = addrs\<rparr>;
                 s = activate_pending clk n (s\<lparr>ep_local_node := Some n\<rparr>)
             in join_early w (ep_early_peers s) (s\<lparr>ep_early_peers := []\<rparr>)
           else Inr s
      else Inr s)"

text \<open>Topics are polled in iteration order until one is ready; each may read the clock eleven times.\<close>

fun poll_topics ::
  "wire_codec \<Rightarrow> (nat \<Rightarrow> entropy) \<Rightarrow> clock \<Rightarrow> (string \<times> topic_mesh) list
     \<Rightarrow> panic + action poll \<times> (string \<times> topic_mesh) list" where
  "poll_topics w rs clk [] = Inr (Pending, [])"
| "poll_topics w rs clk ((t, m) # ms) =
     on_ok (poll_mesh w (rs 0) clk m)
       (\<lambda>(polled, m).
          case polled of
            Ready e \<Rightarrow> Inr (Ready e, (t, m) # ms)
          | Pending \<Rightarrow>
              on_ok (poll_topics w (\<lambda>k. rs (Suc k)) (clock_from clk 11) ms)
                (\<lambda>(polled, ms). Inr (polled, (t, m) # ms)))"

definition poll_episub ::
  "wire_codec \<Rightarrow> (nat \<Rightarrow> entropy) \<Rightarrow> clock \<Rightarrow> poll_params \<Rightarrow> episub \<Rightarrow> panic + action poll \<times> episub" where
  "poll_episub w rs clk params s =
     on_ok (update_local_node_info w clk params s)
       (\<lambda>s'. case ep_out_events s' of
          e # es \<Rightarrow> Inr (Ready e, s'\<lparr>ep_out_events := es\<rparr>)
        | [] \<Rightarrow>
            on_ok (poll_topics w rs (clock_from clk (3 * length (ep_pending_topics s))) (ep_topics s'))
              (\<lambda>(polled, ms). Inr (polled, s'\<lparr>ep_topics := ms\<rparr>)))"

text \<open>The operations that act on the behaviour's own fields.\<close>

lemmas [episub_ops] = subscribe_def unsubscribe_def publish_def inject_new_listen_addr_def
  inject_expired_listen_addr_def inject_dial_failure_def inject_connection_closed_def
  inject_connection_established_def inject_event_def

end
