(* ===== verification/Behaviour_Invariants.thy ===== *)
theory Behaviour_Invariants
  imports Behaviour
begin

section \<open>The reachable states of the network behaviour\<close>

text \<open>
  One operation datatype for the methods and callbacks of \<open>Episub\<close>, the states they reach, and the
  invariant of all of them: before the node knows itself it has no topic, afterwards nothing waits for
  that; banned peers have no recorded address; every topic's mesh is one a topic can reach.
\<close>

datatype episub_op =
    Ep_Subscribe clock string
  | Ep_Unsubscribe string
  | Ep_Publish entropy instant string bytes
  | Ep_Established peer_id connection_id connected_point
  | Ep_New_Addr multiaddr
  | Ep_Expired_Addr multiaddr
  | Ep_Dial_Failure "nat \<Rightarrow> entropy" "peer_id option" dial_error
  | Ep_Closed "nat \<Rightarrow> entropy" peer_id
  | is_Ep_Event: Ep_Event entropy clock peer_id connection_id rpc
  | Ep_Poll "nat \<Rightarrow> entropy" clock poll_params

fun episub_step :: "wire_codec \<Rightarrow> zstd \<Rightarrow> episub_op \<Rightarrow> episub \<Rightarrow> panic + episub" where
  "episub_step w z (Ep_Subscribe clk t) s = Inr (snd (subscribe clk t s))"
| "episub_step w z (Ep_Unsubscribe t) s = Inr (snd (unsubscribe t s))"
| "episub_step w z (Ep_Publish r now t m) s = Inr (snd (publish z r now t m s))"
| "episub_step w z (Ep_Established p c e) s = inject_connection_established w p c e s"
| "episub_step w z (Ep_New_Addr a) s = Inr (inject_new_listen_addr a s)"
| "episub_step w z (Ep_Expired_Addr a) s = Inr (inject_expired_listen_addr a s)"
| "episub_step w z (Ep_Dial_Failure rs p e) s = Inr (inject_dial_failure rs p e s)"
| "episub_step w z (Ep_Closed rs p) s = Inr (inject_connection_closed rs p s)"
| "episub_step w z (Ep_Event r clk p c m) s = inject_event w z r clk p c m s"
| "episub_step w z (Ep_Poll rs clk params) s =
     on_ok (poll_episub w rs clk params s) (\<lambda>(e, s). Inr s)"

inductive episub_reachable :: "wire_codec \<Rightarrow> zstd \<Rightarrow> episub \<Rightarrow> bool" for w z where
  episub_init: "episub_reachable w z (new_episub c)"
| episub_next: "episub_reachable w z s \<Longrightarrow> episub_step w z op s = Inr s' \<Longrightarrow> episub_reachable w z s'"

abbreviation ep_ident :: "episub \<Rightarrow> config \<times> peer_id option" where
  "ep_ident s \<equiv> (ep_config s, map_option peer_id (ep_local_node s))"

definition episub_inv :: "wire_codec \<Rightarrow> zstd \<Rightarrow> episub \<Rightarrow> bool" where
  "episub_inv w z s \<longleftrightarrow>
     (ep_local_node s = None \<longrightarrow> ep_topics s = []) \<and>
     (ep_local_node s \<noteq> None \<longrightarrow> ep_pending_topics s = [] \<and> ep_early_peers s = []) \<and>
     distinct (map fst (ep_topics s)) \<and>
     set (ep_banned_peers s) \<inter> dom (ep_peer_addresses s) = {} \<and>
     set (ep_early_peers s) \<subseteq> set (ep_banned_peers s) \<union> dom (ep_peer_addresses s) \<and>
     (\<forall>(t, m) \<in> set (ep_topics s). mesh_of w z t (ep_ident s) m)"

subsection \<open>The helpers keep it\<close>

lemma ep_push_fields [simp]:
  "ep_config (ep_push a s) = ep_config s"
  "ep_local_node (ep_push a s) = ep_local_node s"
  "ep_topics (ep_push a s) = ep_topics s"
  "ep_banned_peers (ep_push a s) = ep_banned_peers s"
  "ep_pending_topics (ep_push a s) = ep_pending_topics s"
  "ep_out_events (ep_push a s) = ep_out_events s @ [a]"
  "ep_peer_addresses (ep_push a s) = ep_peer_addresses s"
  "ep_early_peers (ep_push a s) = ep_early_peers s"
  by (simp_all add: ep_push_def)

lemma force_disconnect_fields [simp]:
  "ep_config (force_disconnect p c s) = ep_config s"
  "ep_local_node (force_disconnect p c s) = ep_local_node s"
  "ep_topics (force_disconnect p c s) = ep_topics s"
  "ep_banned_peers (force_disconnect p c s) = ep_banned_peers s"
  "ep_pending_topics (force_disconnect p c s) = ep_pending_topics s"
  "ep_out_events (force_disconnect p c s) = ep_out_events s @ [CloseConnection p c]"
  "ep_peer_addresses (force_disconnect p c s) = ep_peer_addresses s"
  "ep_early_peers (force_disconnect p c s) = ep_early_peers s"
  by (simp_all add: force_disconnect_def)

lemma ban_peer_fields [simp]:
  "ep_config (ban_peer p c s) = ep_config s"
  "ep_local_node (ban_peer p c s) = ep_local_node s"
  "ep_topics (ban_peer p c s) = ep_topics s"
  "set (ep_banned_peers (ban_peer p c s)) = insert p (set (ep_banned_peers s))"
  "ep_pending_topics (ban_peer p c s) = ep_pending_topics s"
  "ep_out_events (ban_peer p c s) = ep_out_events s @ [CloseConnection p c]"
  "ep_peer_addresses (ban_peer p c s) = (ep_peer_addresses s)(p := None)"
  "ep_early_peers (ban_peer p c s) = ep_early_peers s"
  by (simp_all add: ban_peer_def)

lemma episub_inv_quiet [simp]:
  "episub_inv w z (ep_push a s) = episub_inv w z s"
  "episub_inv w z (force_disconnect p c s) = episub_inv w z s"
  "episub_inv w z (s\<lparr>ep_out_events := es\<rparr>) = episub_inv w z s"
  by (simp_all add: episub_inv_def)

lemma ban_peer_inv: "episub_inv w z s \<Longrightarrow> episub_inv w z (ban_peer p c s)"
  by (auto simp: episub_inv_def)

lemma each_topic_fields [simp]:
  "ep_config (each_topic f s) = ep_config s"
  "ep_local_node (each_topic f s) = ep_local_node s"
  "ep_banned_peers (each_topic f s) = ep_banned_peers s"
  "ep_pending_topics (each_topic f s) = ep_pending_topics s"
  "ep_out_events (each_topic f s) = ep_out_events s"
  "ep_peer_addresses (each_topic f s) = ep_peer_addresses s"
  "ep_early_peers (each_topic f s) = ep_early_peers s"
  by (simp_all add: each_topic_def)

lemma each_topic_names [simp]: "map fst (ep_topics (each_topic f s)) = map fst (ep_topics s)"
  unfolding each_topic_def by (simp add: map_fst_numbered del: map_map)

lemma each_topic_in:
  "(t, m') \<in> set (ep_topics (each_topic f s)) \<Longrightarrow> \<exists>k m. (t, m) \<in> set (ep_topics s) \<and> m' = f k t m"
  by (auto simp: each_topic_def dest!: set_zip_rightD)

lemma each_topic_inv:
  assumes "episub_inv w z s" and "\<And>k t m. mesh_of w z t (ep_ident s) m \<Longrightarrow> mesh_of w z t (ep_ident s) (f k t m)"
  shows "episub_inv w z (each_topic f s)"
proof -
  have "mesh_of w z t (ep_ident s) m'" if "(t, m') \<in> set (ep_topics (each_topic f s))" for t m'
    using each_topic_in [OF that] assms by (auto simp: episub_inv_def)
  moreover have "ep_topics (each_topic f s) = [] \<longleftrightarrow> ep_topics s = []"
    by (simp add: each_topic_def)
  ultimately show ?thesis using assms(1) by (auto simp: episub_inv_def)
qed

lemma update_topic_inv:
  assumes "episub_inv w z s" and "map_of (ep_topics s) t = Some m" and "mesh_of w z t (ep_ident s) m'"
  shows "episub_inv w z (update_topic t m' s)"
proof -
  have "ep_topics s \<noteq> []" using assms(2) by auto
  then have "ep_local_node s \<noteq> None" using assms(1) by (auto simp: episub_inv_def)
  moreover have "mesh_of w z u (ep_ident s) n" if "(u, n) \<in> set (AList.update t m' (ep_topics s))" for u n
    using that assms set_alist_update [of t m' "ep_topics s"] by (auto simp: episub_inv_def)
  ultimately show ?thesis
    using assms(1) by (auto simp: episub_inv_def update_topic_def distinct_update)
qed

lemma request_join_cases:
  assumes "request_join_for_starving_topics w p s = Inr s'"
  shows "s' = s \<or> (\<exists>f. s' = each_topic f s \<and>
    (\<forall>k t m. f k t m = m \<or> (\<exists>a. f k t m = mesh_initiate_join w a m)))"
proof (cases "ep_peer_addresses s p")
  case (Some addr)
  let ?f = "\<lambda>_ t m. if wants_join s p t m then mesh_initiate_join w \<lparr>peer_id = p, addresses = [addr]\<rparr> m else m"
  from Some assms have "s' = s \<or> s' = each_topic ?f s"
    by (auto simp: request_join_for_starving_topics_def split: if_splits)
  moreover have "\<forall>k t m. ?f k t m = m \<or> (\<exists>a. ?f k t m = mesh_initiate_join w a m)" by auto
  ultimately show ?thesis by blast
qed (use assms in \<open>auto simp: request_join_for_starving_topics_def split: if_splits\<close>)

lemma request_join_inv:
  assumes "episub_inv w z s" and "request_join_for_starving_topics w p s = Inr s'"
  shows "episub_inv w z s'"
  using request_join_cases [OF assms(2)]
proof (elim disjE exE conjE)
  fix f
  assume f: "s' = each_topic f s" "\<forall>k t m. f k t m = m \<or> (\<exists>a. f k t m = mesh_initiate_join w a m)"
  then have "mesh_of w z t (ep_ident s) (f k t m)" if "mesh_of w z t (ep_ident s) m" for k t m
    using that mesh_of_next [OF that mesh_join] by metis
  with assms(1) f(1) show ?thesis by (simp add: each_topic_inv)
qed (use assms(1) in simp)

lemma join_early_inv:
  "episub_inv w z s \<Longrightarrow> join_early w ps s = Inr s' \<Longrightarrow> episub_inv w z s'"
proof (induction ps arbitrary: s)
  case (Cons p ps)
  then obtain s1 where "request_join_for_starving_topics w p s = Inr s1" "join_early w ps s1 = Inr s'"
    by (auto simp: on_ok_Inr_iff)
  with Cons.IH request_join_inv [OF Cons.prems(1)] show ?case by blast
qed simp

subsection \<open>Every operation keeps it\<close>

lemma subscribe_inv: "episub_inv w z s \<Longrightarrow> episub_inv w z (snd (subscribe clk t s))"
proof (cases "map_of (ep_topics s) t")
  case None
  then have "t \<notin> fst ` set (ep_topics s)" by (simp add: map_of_eq_None_iff)
  moreover assume "episub_inv w z s"
  ultimately show ?thesis
    using None mesh_of_init [of w z] by (cases "ep_local_node s") (simp_all add: episub_inv_def subscribe_def)
qed (simp add: subscribe_def)

lemma unsubscribe_sends [simp]:
  "ep_topics (foldl (\<lambda>s p. ep_push (f p) s) s ps) = ep_topics s"
  "ep_local_node (foldl (\<lambda>s p. ep_push (f p) s) s ps) = ep_local_node s"
  "ep_config (foldl (\<lambda>s p. ep_push (f p) s) s ps) = ep_config s"
  "ep_pending_topics (foldl (\<lambda>s p. ep_push (f p) s) s ps) = ep_pending_topics s"
  "ep_banned_peers (foldl (\<lambda>s p. ep_push (f p) s) s ps) = ep_banned_peers s"
  "ep_early_peers (foldl (\<lambda>s p. ep_push (f p) s) s ps) = ep_early_peers s"
  "ep_peer_addresses (foldl (\<lambda>s p. ep_push (f p) s) s ps) = ep_peer_addresses s"
  "ep_out_events (foldl (\<lambda>s p. ep_push (f p) s) s ps) = ep_out_events s @ map f ps"
  by (induction ps arbitrary: s) simp_all

lemma unsubscribe_inv: "episub_inv w z s \<Longrightarrow> episub_inv w z (snd (unsubscribe t s))"
  by (auto simp: episub_inv_def unsubscribe_def Let_def distinct_map_filter_key hs_remove_def
      split: option.splits)

lemma publish_inv: "episub_inv w z s \<Longrightarrow> episub_inv w z (snd (publish z' r now t m s))"
  by (auto simp: publish_def Let_def split: option.splits sum.splits if_splits
      intro!: update_topic_inv mesh_of_next [OF _ mesh_send])
    (auto simp: episub_inv_def dest!: map_of_SomeD)

lemma established_inv:
  assumes "episub_inv w z s" and "inject_connection_established w p c e s = Inr s'"
  shows "episub_inv w z s'"
proof (cases "p \<in> set (ep_banned_peers s)")
  case False
  let ?s = "\<lambda>a. s\<lparr>ep_peer_addresses := (ep_peer_addresses s)(p \<mapsto> a)\<rparr>"
  have known: "episub_inv w z (?s a)" for a
    using assms(1) False by (auto simp: episub_inv_def)
  have early: "episub_inv w z (?s a\<lparr>ep_early_peers := hs_insert id p (ep_early_peers s)\<rparr>)"
    if "ep_local_node s = None" for a
    using assms(1) False that by (auto simp: episub_inv_def)
  show ?thesis
  proof (cases e)
    case (Dialer a)
    show ?thesis
    proof (cases "ep_local_node s")
      case None
      with Dialer False assms(2) early show ?thesis
        by (auto simp: inject_connection_established_def Let_def)
    next
      case (Some n)
      with Dialer False assms(2) have "request_join_for_starving_topics w p (?s a) = Inr s'"
        by (simp add: inject_connection_established_def Let_def)
      with known show ?thesis by (rule request_join_inv)
    qed
  next
    case (Listener a)
    with False assms(2) known show ?thesis by (auto simp: inject_connection_established_def Let_def)
  qed
qed (use assms in \<open>auto simp: inject_connection_established_def\<close>)

lemma listen_addr_inv:
  "episub_inv w z s \<Longrightarrow> episub_inv w z (inject_new_listen_addr a s)"
  "episub_inv w z s \<Longrightarrow> episub_inv w z (inject_expired_listen_addr a s)"
  by (auto simp: episub_inv_def inject_new_listen_addr_def inject_expired_listen_addr_def
      split: option.split)

lemma disconnects_inv:
  "episub_inv w z s \<Longrightarrow> episub_inv w z (inject_dial_failure rs q e s)"
  "episub_inv w z s \<Longrightarrow> episub_inv w z (inject_connection_closed rs p s)"
  by (auto simp: inject_dial_failure_def inject_connection_closed_def split: option.split
      intro!: each_topic_inv mesh_of_next [OF _ mesh_disconnect])

text \<open>The four ways a message can end without a panic.\<close>

lemma inject_event_cases:
  assumes "inject_event w z r clk p c m s = Inr s'"
  obtains (rejected) "s' = force_disconnect p c s"
    | (banned) "s' = ban_peer p c s"
    | (unknown) "s' = force_disconnect p c (ep_push (NotifyHandler p (rpc_of (rpc_topic m) (Disconnect False))) s)"
    | (called) mesh res mesh' where "map_of (ep_topics s) (rpc_topic m) = Some mesh"
        "inject_rpc_call w z r clk p m mesh = Inr (res, mesh')" "p \<notin> set (ep_banned_peers s)"
        "s' = (case res of Inl error \<Rightarrow> ban_peer p c (update_topic (rpc_topic m) mesh' s)
                         | Inr _ \<Rightarrow> update_topic (rpc_topic m) mesh' s)"
        "allow (ep_config s) (rpc_topic m) p"
proof (cases "map_of (ep_topics s) (rpc_topic m)")
  case None
  with assms that(1-3) show thesis by (simp add: inject_event_def split: if_splits)
next
  case (Some mesh)
  show thesis
  proof (cases "p \<in> set (ep_banned_peers s) \<or> \<not> allow (ep_config s) (rpc_topic m) p \<or> rpc_action m = None")
    case True
    with assms that(1,2) show thesis by (auto simp: inject_event_def split: if_splits)
  next
    case False
    with assms Some obtain res mesh' where "inject_rpc_call w z r clk p m mesh = Inr (res, mesh')"
      "s' = (case res of Inl error \<Rightarrow> ban_peer p c (update_topic (rpc_topic m) mesh' s)
                       | Inr _ \<Rightarrow> update_topic (rpc_topic m) mesh' s)"
      by (auto simp: inject_event_def on_ok_Inr_iff Let_def)
    with Some False that(4) show thesis by blast
  qed
qed

lemma event_inv:
  assumes "episub_inv w z s" and "inject_event w z r clk p c m s = Inr s'"
  shows "episub_inv w z s'"
  using assms(2)
proof (cases rule: inject_event_cases)
  case (called mesh res mesh')
  have "mesh_of w z (rpc_topic m) (ep_ident s) mesh"
    using assms(1) called(1) by (auto simp: episub_inv_def dest!: map_of_SomeD)
  then have "mesh_of w z (rpc_topic m) (ep_ident s) mesh'"
    using mesh_call [OF called(2)] by (rule mesh_of_next)
  with called(1) have "episub_inv w z (update_topic (rpc_topic m) mesh' s)"
    by (rule update_topic_inv [OF assms(1)])
  with called(4) show ?thesis by (simp add: ban_peer_inv split: sum.split)
qed (use assms(1) in \<open>simp_all add: ban_peer_inv\<close>)

end
