(* ===== verification/Behaviour_Reachable.thy ===== *)
theory Behaviour_Reachable
  imports Behaviour_Invariants
begin

section \<open>Polling the network behaviour\<close>

text \<open>
  What the first poll that learns the node's addresses does to the pending topics, and that polling keeps
  the invariant, which therefore holds in every reachable state.
\<close>

subsection \<open>Learning the own identity\<close>

lemma activate_pending_fields [simp]:
  "ep_config (activate_pending clk n s) = ep_config s"
  "ep_local_node (activate_pending clk n s) = ep_local_node s"
  "ep_banned_peers (activate_pending clk n s) = ep_banned_peers s"
  "ep_pending_topics (activate_pending clk n s) = []"
  "ep_out_events (activate_pending clk n s) = ep_out_events s"
  "ep_peer_addresses (activate_pending clk n s) = ep_peer_addresses s"
  "ep_early_peers (activate_pending clk n s) = ep_early_peers s"
  "ep_topics (activate_pending clk n s) =
     activate_topics clk (ep_config s) n (ep_pending_topics s) (ep_topics s)"
  by (simp_all add: activate_pending_def)

text \<open>The topics after activation: the old ones, and a new mesh for every other pending topic.\<close>

lemma activate_step_names:
  "fst ` set (foldl (\<lambda>ts (k, topic). if map_of ts topic \<noteq> None then ts else ts @ [(topic, f k topic)]) ts ps)
     = fst ` set ts \<union> snd ` set ps"
proof (induction ps arbitrary: ts)
  case (Cons p ps)
  obtain k topic where p: "p = (k, topic)" by (cases p)
  have "topic \<in> fst ` set ts" if "map_of ts topic \<noteq> None"
    using that by (force dest: map_of_SomeD)
  then show ?case
    by (cases "map_of ts topic \<noteq> None") (simp_all add: p Cons.IH insert_absorb del: not_None_eq)
qed simp

lemma activate_step_distinct:
  "distinct (map fst ts) \<Longrightarrow>
   distinct (map fst (foldl (\<lambda>ts (k, topic). if map_of ts topic \<noteq> None then ts
                                 else ts @ [(topic, f k topic)]) ts ps))"
  by (rule foldl_preserves [where P = "\<lambda>ts. distinct (map fst ts)"])
    (auto simp: map_of_eq_None_iff)

lemma activate_step_meshes:
  "(t, m) \<in> set (foldl (\<lambda>ts (k, topic). if map_of ts topic \<noteq> None then ts
                            else ts @ [(topic, f k topic)]) ts ps) \<Longrightarrow>
   (t, m) \<in> set ts \<or> (\<exists>k. m = f k t)"
proof (induction ps arbitrary: ts)
  case (Cons p ps)
  obtain k topic where p: "p = (k, topic)" by (cases p)
  from Cons.prems Cons.IH [of "if map_of ts topic \<noteq> None then ts else ts @ [(topic, f k topic)]"]
  show ?case by (auto simp: p split: if_splits)
qed simp

lemma activate_topics_names:
  "fst ` set (activate_topics clk c n pending topics) = fst ` set topics \<union> set pending"
proof -
  have "snd ` set (zip [0..<length pending] pending) = set pending"
    by (metis length_map length_upt list.set_map map_nth map_snd_zip)
  then show ?thesis unfolding activate_topics_def activate_step_names by simp
qed

lemma activate_topics_distinct:
  "distinct (map fst topics) \<Longrightarrow> distinct (map fst (activate_topics clk c n pending topics))"
  unfolding activate_topics_def by (rule activate_step_distinct)

lemma activate_topics_meshes:
  "(t, m) \<in> set (activate_topics clk c n pending topics) \<Longrightarrow>
   (t, m) \<in> set topics \<or> (\<exists>k. m = new_mesh t c n (clock_from clk (3 * k)))"
  unfolding activate_topics_def by (rule activate_step_meshes)

lemma update_local_node_inv:
  assumes "episub_inv w z s" and "update_local_node_info w clk params s = Inr s'"
  shows "episub_inv w z s'"
proof (cases "ep_local_node s = None \<and> local_addresses params \<noteq> []")
  case True
  define n where "n = \<lparr>peer_id = pp_local_peer_id params, addresses = local_addresses params\<rparr>"
  define s1 where "s1 = (activate_pending clk n (s\<lparr>ep_local_node := Some n\<rparr>))\<lparr>ep_early_peers := []\<rparr>"
  have early: "join_early w (ep_early_peers s) s1 = Inr s'"
    using True assms(2) by (simp add: update_local_node_info_def n_def s1_def Let_def)
  have "ep_topics s = []" using True assms(1) by (simp add: episub_inv_def)
  then have "mesh_of w z t (ep_ident s1) m" if "(t, m) \<in> set (ep_topics s1)" for t m
    using that activate_topics_meshes [of t m clk "ep_config s" n "ep_pending_topics s" "[]"]
      mesh_of_init [of w z t "ep_config s" n] by (auto simp: s1_def)
  then have "episub_inv w z s1"
    using assms(1) by (auto simp: s1_def episub_inv_def activate_topics_distinct)
  then show ?thesis using early by (rule join_early_inv)
qed (use assms in \<open>auto simp: update_local_node_info_def Let_def split: if_splits\<close>)

lemma poll_topics_shape:
  "poll_topics w rs clk ms = Inr (polled, ms') \<Longrightarrow>
   map fst ms' = map fst ms \<and>
   ((\<forall>(t, m) \<in> set ms. mesh_of w z t c m) \<longrightarrow> (\<forall>(t, m) \<in> set ms'. mesh_of w z t c m))"
proof (induction w rs clk ms arbitrary: polled ms' rule: poll_topics.induct)
  case (2 w rs clk t m ms)
  from "2.prems" obtain polled1 m1 where m1: "poll_mesh w (rs 0) clk m = Inr (polled1, m1)"
    by (auto simp: on_ok_Inr_iff)
  have reach: "mesh_of w z t c m1" if "mesh_of w z t c m"
    using mesh_of_next [OF that mesh_poll [OF m1]] .
  show ?case
  proof (cases polled1)
    case (Ready e)
    with m1 "2.prems" reach show ?thesis by auto
  next
    case Pending
    with m1 "2.prems" obtain ms1 where
      "poll_topics w (\<lambda>k. rs (Suc k)) (clock_from clk 11) ms = Inr (polled, ms1)" "ms' = (t, m1) # ms1"
      by (auto simp: on_ok_Inr_iff)
    with "2.IH" [OF Pending] reach show ?thesis by auto
  qed
qed simp

lemma poll_inv:
  assumes "episub_inv w z s" and "poll_episub w rs clk params s = Inr (e, s')"
  shows "episub_inv w z s'"
proof -
  from assms(2) obtain s1 where s1: "update_local_node_info w clk params s = Inr s1"
    by (auto simp: poll_episub_def on_ok_Inr_iff)
  note inv = update_local_node_inv [OF assms(1) s1]
  show ?thesis
  proof (cases "ep_out_events s1")
    case (Cons a es)
    with s1 assms(2) inv show ?thesis by (auto simp: poll_episub_def)
  next
    case Nil
    with s1 assms(2) obtain clk' ms where ms: "poll_topics w rs clk' (ep_topics s1) = Inr (e, ms)"
      "s' = s1\<lparr>ep_topics := ms\<rparr>"
      by (auto simp: poll_episub_def on_ok_Inr_iff)
    from poll_topics_shape [OF ms(1), of z "ep_ident s1"] inv ms(2) show ?thesis by (auto simp: episub_inv_def)
  qed
qed

lemma episub_step_inv:
  assumes "episub_inv w z s" and "episub_step w z op s = Inr s'"
  shows "episub_inv w z s'"
proof (cases op)
  case (Ep_Established p c e)
  with assms show ?thesis by (simp add: established_inv)
next
  case (Ep_Event r clk p c m)
  with assms show ?thesis by (simp add: event_inv)
next
  case (Ep_Poll rs clk params)
  with assms show ?thesis by (auto simp: on_ok_Inr_iff intro: poll_inv)
qed (use assms in \<open>auto simp: subscribe_inv unsubscribe_inv publish_inv listen_addr_inv disconnects_inv\<close>)

lemma reachable_inv: "episub_reachable w z s \<Longrightarrow> episub_inv w z s"
proof (induction rule: episub_reachable.induct)
  case (episub_init c)
  show ?case by (simp add: episub_inv_def new_episub_def)
qed (rule episub_step_inv)

end
