(* ===== verification/Behaviour_Properties.thy ===== *)
theory Behaviour_Properties
  imports Behaviour_Reachable
begin

section \<open>What the network behaviour guarantees\<close>

text \<open>
  The invariant of all reachable states, the permanence of bans, the outcome of a message on every branch,
  the panic an early banned peer causes, the life of a subscription made before the node knows itself,
  and that what is published is what arrives.
\<close>

subsection \<open>Reachable states\<close>

text \<open>
  C11. In every state the behaviour can reach: before the node knows its own identity it is in no topic,
  afterwards no topic and no early peer waits; a topic has one mesh; no banned peer has a recorded
  address; every topic's tree carries the topic's name and the behaviour's configuration; and in every
  topic whose HyParView queue is drained, each active peer is eager or lazy in the topic's tree.
\<close>

theorem episub_reachable_inv:
  assumes "episub_reachable w z s"
  shows "(ep_local_node s = None \<longrightarrow> ep_topics s = []) \<and>
    (ep_local_node s \<noteq> None \<longrightarrow> ep_pending_topics s = [] \<and> ep_early_peers s = []) \<and>
    distinct (map fst (ep_topics s)) \<and>
    (\<forall>p \<in> set (ep_banned_peers s). ep_peer_addresses s p = None) \<and>
    (\<forall>(t, m) \<in> set (ep_topics s). pt_topic (tm_tree m) = t \<and> pt_config (tm_tree m) = ep_config s) \<and>
    (\<forall>(t, m) \<in> set (ep_topics s). hv_out_events (tm_nodes m) = [] \<longrightarrow>
       (\<forall>x \<in> set (hv_active (tm_nodes m)).
          peer_id x \<in> set (pt_eager (tm_tree m)) \<union> set (pt_lazy (tm_tree m))))"
proof -
  have inv: "episub_inv w z s" using assms by (rule reachable_inv)
  have "peer_id x \<in> set (pt_eager (tm_tree m)) \<union> set (pt_lazy (tm_tree m))"
    if "(t, m) \<in> set (ep_topics s)" "hv_out_events (tm_nodes m) = []" "x \<in> set (hv_active (tm_nodes m))"
    for t m x
  proof -
    have "mesh_covered m"
      using inv that(1) by (auto simp: episub_inv_def mesh_of_def intro: mesh_reachable_covered)
    with that(2,3) show ?thesis by (auto simp: mesh_covered_def tree_peers_def hs_keys_def)
  qed
  moreover have "pt_topic (tm_tree m) = t \<and> pt_config (tm_tree m) = ep_config s"
    if "(t, m) \<in> set (ep_topics s)" for t m
    using inv that by (auto simp: episub_inv_def mesh_of_def tree_ident_def)
  ultimately show ?thesis using inv by (auto simp: episub_inv_def)
qed

definition public_addr :: multiaddr where "public_addr = [Ip4 0x0A000001, Tcp 4001]"

definition sample_params :: poll_params where
  "sample_params = \<lparr>pp_external_addresses = [], pp_listened_addresses = [[Ip4 ipv4_localhost], public_addr],
     pp_local_peer_id = PeerId [0]\<rparr>"

lemma sample_addresses: "local_addresses sample_params = [public_addr]"
  by (simp add: local_addresses_def sample_params_def is_local_address_def public_addr_def
      ipv4_localhost_def hs_collect_def hs_insert_def)

theorem episub_reachable_inv_witness:
  "\<exists>s. episub_reachable toy_wire tag_zstd s \<and> ep_pending_topics s = [''t''] \<and> ep_topics s = []"
proof -
  define s where "s = snd (subscribe (\<lambda>_. 0) ''t'' (new_episub default_config))"
  have "episub_reachable toy_wire tag_zstd s"
    unfolding s_def by (rule episub_next [OF episub_init, where op = "Ep_Subscribe (\<lambda>_. 0) ''t''"]) simp
  moreover have "ep_pending_topics s = [''t'']" "ep_local_node s = None"
    by (simp_all add: s_def subscribe_def new_episub_def hs_insert_def)
  moreover from episub_reachable_inv [OF calculation(1)] calculation(3) have "ep_topics s = []" by simp
  ultimately show ?thesis by blast
qed

subsection \<open>Bans\<close>

fun episub_run :: "wire_codec \<Rightarrow> zstd \<Rightarrow> episub_op list \<Rightarrow> episub \<Rightarrow> panic + episub" where
  "episub_run w z [] s = Inr s"
| "episub_run w z (op # ops) s = on_ok (episub_step w z op s) (episub_run w z ops)"

lemma reachable_run:
  "episub_run w z ops s = Inr s' \<Longrightarrow> episub_reachable w z s \<Longrightarrow> episub_reachable w z s'"
  by (induction ops arbitrary: s) (auto simp: on_ok_Inr_iff intro: episub_next)

lemma request_join_banned:
  "request_join_for_starving_topics w p s = Inr s' \<Longrightarrow> ep_banned_peers s' = ep_banned_peers s"
  using request_join_cases [of w p s s'] by auto

lemma join_early_banned: "join_early w ps s = Inr s' \<Longrightarrow> ep_banned_peers s' = ep_banned_peers s"
  by (induction ps arbitrary: s) (force simp: on_ok_Inr_iff dest: request_join_banned)+

lemma update_banned:
  "update_local_node_info w clk params s = Inr s' \<Longrightarrow> ep_banned_peers s' = ep_banned_peers s"
  by (auto simp: update_local_node_info_def Let_def split: if_splits dest!: join_early_banned)

lemma poll_banned:
  assumes "poll_episub w rs clk params s = Inr (e, s')"
  shows "ep_banned_peers s' = ep_banned_peers s"
proof -
  from assms obtain s1 where s1: "update_local_node_info w clk params s = Inr s1"
    by (auto simp: poll_episub_def on_ok_Inr_iff)
  with assms have "ep_banned_peers s' = ep_banned_peers s1"
    by (cases "ep_out_events s1") (auto simp: poll_episub_def on_ok_Inr_iff)
  with update_banned [OF s1] show ?thesis by simp
qed

lemma event_banned:
  "inject_event w z r clk p c m s = Inr s' \<Longrightarrow> set (ep_banned_peers s) \<subseteq> set (ep_banned_peers s')"
  by (erule inject_event_cases) (auto simp: update_topic_def split: sum.splits)

text \<open>Only a message can get a peer banned.\<close>

lemma other_step_banned:
  assumes "episub_step w z op s = Inr s'" and "\<not> is_Ep_Event op"
  shows "ep_banned_peers s' = ep_banned_peers s"
proof (cases op)
  case (Ep_Poll rs clk params)
  with assms show ?thesis by (auto simp: on_ok_Inr_iff dest: poll_banned)
next
  case (Ep_Established p c e)
  with assms show ?thesis
    by (auto simp: inject_connection_established_def Let_def dest!: request_join_banned
        split: if_splits connected_point.splits)
qed (use assms in \<open>auto simp: episub_ops update_topic_def Let_def
       split: option.splits if_splits sum.splits\<close>)

lemma episub_step_banned:
  assumes "episub_step w z op s = Inr s'"
  shows "set (ep_banned_peers s) \<subseteq> set (ep_banned_peers s')"
proof (cases "is_Ep_Event op")
  case True
  with assms show ?thesis by (auto simp: is_Ep_Event_def dest!: event_banned)
next
  case False
  from other_step_banned [OF assms False] show ?thesis by simp
qed

lemma episub_run_banned:
  "episub_run w z ops s = Inr s' \<Longrightarrow> set (ep_banned_peers s) \<subseteq> set (ep_banned_peers s')"
proof (induction ops arbitrary: s)
  case (Cons op ops)
  then obtain s1 where "episub_step w z op s = Inr s1" "episub_run w z ops s1 = Inr s'"
    by (auto simp: on_ok_Inr_iff)
  with Cons.IH episub_step_banned show ?case by blast
qed simp

text \<open>
  C15. Bans are permanent. After any sequence of operations a banned peer is still banned, and whatever
  it sends, and any connection it opens, changes nothing but the queue, where the connection's close is
  put.
\<close>

theorem bans_are_permanent:
  assumes "p \<in> set (ep_banned_peers s)" and "episub_run w z ops s = Inr s'"
  shows "p \<in> set (ep_banned_peers s') \<and>
    inject_event w z r clk p c m s' = Inr (s'\<lparr>ep_out_events := ep_out_events s' @ [CloseConnection p c]\<rparr>) \<and>
    inject_connection_established w p c e s' =
      Inr (s'\<lparr>ep_out_events := ep_out_events s' @ [CloseConnection p c]\<rparr>)"
  using assms(1) episub_run_banned [OF assms(2)]
  by (auto simp: inject_event_def inject_connection_established_def force_disconnect_def ep_push_def)

theorem bans_are_permanent_witness:
  "\<exists>s s'. PeerId [9] \<in> set (ep_banned_peers s) \<and>
     episub_run toy_wire tag_zstd [Ep_Subscribe (\<lambda>_. 0) ''t'', Ep_Closed (\<lambda>_. first_entropy) (PeerId [9])] s
       = Inr s' \<and> PeerId [9] \<in> set (ep_banned_peers s')"
proof -
  define s where "s = ban_peer (PeerId [9]) 0 (new_episub default_config)"
  define s' where "s' = inject_connection_closed (\<lambda>_. first_entropy) (PeerId [9]) (snd (subscribe (\<lambda>_. 0) ''t'' s))"
  have "PeerId [9] \<in> set (ep_banned_peers s)" by (simp add: s_def)
  moreover have "episub_run toy_wire tag_zstd
      [Ep_Subscribe (\<lambda>_. 0) ''t'', Ep_Closed (\<lambda>_. first_entropy) (PeerId [9])] s = Inr s'"
    by (simp add: s'_def)
  ultimately show ?thesis using bans_are_permanent by blast
qed

subsection \<open>Messages\<close>



subsection \<open>A peer banned before the node knows itself\<close>

text \<open>Meshes without active peers: what every new topic is.\<close>

definition idle_topics :: "episub \<Rightarrow> bool" where
  "idle_topics s \<longleftrightarrow> (\<forall>(t, m) \<in> set (ep_topics s). hv_active (tm_nodes m) = [])"

lemma idle_wants_join: "hv_active (tm_nodes m) = [] \<Longrightarrow> wants_join s p t m \<longleftrightarrow> allow (ep_config s) t p"
  by (simp add: wants_join_def starved_def is_active_def hs_contains_def min_active_view_size_def
      less_max_iff_disj)

lemma idle_initiate_join: "hv_active (tm_nodes (mesh_initiate_join w a m)) = hv_active (tm_nodes m)"
  by (simp add: mesh_initiate_join_def on_nodes_def initiate_join_def hv_push_def)

lemma request_join_idle:
  assumes "idle_topics s"
  shows "request_join_for_starving_topics w p s = Inl x \<longleftrightarrow>
      x = Unwrap_None \<and> ep_peer_addresses s p = None \<and> (\<exists>t \<in> fst ` set (ep_topics s). allow (ep_config s) t p)"
    and "request_join_for_starving_topics w p s = Inr s' \<Longrightarrow>
      idle_topics s' \<and> map fst (ep_topics s') = map fst (ep_topics s) \<and> ep_config s' = ep_config s \<and>
      ep_peer_addresses s' = ep_peer_addresses s"
proof -
  have wants: "wants_join s p t m \<longleftrightarrow> allow (ep_config s) t p" if "(t, m) \<in> set (ep_topics s)" for t m
    using that assms by (auto simp: idle_topics_def idle_wants_join)
  then have "list_ex (\<lambda>(t, m). wants_join s p t m) (ep_topics s) \<longleftrightarrow>
      (\<exists>t \<in> fst ` set (ep_topics s). allow (ep_config s) t p)"
    by (force simp: list_ex_iff)
  then show "request_join_for_starving_topics w p s = Inl x \<longleftrightarrow>
      x = Unwrap_None \<and> ep_peer_addresses s p = None \<and> (\<exists>t \<in> fst ` set (ep_topics s). allow (ep_config s) t p)"
    by (auto simp: request_join_for_starving_topics_def split: option.split)
  assume "request_join_for_starving_topics w p s = Inr s'"
  from request_join_cases [OF this] show "idle_topics s' \<and> map fst (ep_topics s') = map fst (ep_topics s) \<and>
      ep_config s' = ep_config s \<and> ep_peer_addresses s' = ep_peer_addresses s"
  proof (elim disjE exE conjE)
    fix f
    assume f: "s' = each_topic f s" "\<forall>k t m. f k t m = m \<or> (\<exists>a. f k t m = mesh_initiate_join w a m)"
    then have same: "hv_active (tm_nodes (f k t m)) = hv_active (tm_nodes m)" for k t m
      by (metis idle_initiate_join)
    have "idle_topics s'"
      unfolding idle_topics_def f(1) using assms same by (fastforce simp: idle_topics_def dest: each_topic_in)
    with f(1) show ?thesis by simp
  qed (use assms in simp)
qed

lemma join_early_panics:
  "idle_topics s \<Longrightarrow> join_early w ps s = Inl x \<longleftrightarrow>
     x = Unwrap_None \<and>
     (\<exists>p \<in> set ps. ep_peer_addresses s p = None \<and> (\<exists>t \<in> fst ` set (ep_topics s). allow (ep_config s) t p))"
proof (induction ps arbitrary: s)
  case (Cons p ps)
  show ?case
  proof (cases "request_join_for_starving_topics w p s")
    case (Inl y)
    with request_join_idle(1) [OF Cons.prems, of w p y] show ?thesis by auto
  next
    case (Inr s1)
    note same = request_join_idle(2) [OF Cons.prems Inr]
    then have names: "fst ` set (ep_topics s1) = fst ` set (ep_topics s)" by (metis list.set_map)
    from Inr have "\<not> (ep_peer_addresses s p = None \<and> (\<exists>t \<in> fst ` set (ep_topics s). allow (ep_config s) t p))"
      using request_join_idle(1) [OF Cons.prems, of w p Unwrap_None] by auto
    with Inr same names Cons.IH [of s1] show ?thesis by auto
  qed
qed simp



subsection \<open>Subscriptions made early\<close>

lemma request_join_queue:
  "request_join_for_starving_topics w p s = Inr s' \<Longrightarrow>
   ep_out_events s' = ep_out_events s \<and> map fst (ep_topics s') = map fst (ep_topics s)"
  using request_join_cases [of w p s s'] by auto

lemma join_early_queue:
  "join_early w ps s = Inr s' \<Longrightarrow>
   ep_out_events s' = ep_out_events s \<and> map fst (ep_topics s') = map fst (ep_topics s)"
proof (induction ps arbitrary: s)
  case (Cons p ps)
  then obtain s1 where "request_join_for_starving_topics w p s = Inr s1" "join_early w ps s1 = Inr s'"
    by (auto simp: on_ok_Inr_iff)
  with Cons.IH request_join_queue show ?case by metis
qed simp

text \<open>
  A subscription made before the node knows its addresses is accepted and waits. It cannot be
  withdrawn while it waits: unsubscribing is refused. The poll that learns the addresses joins the topic,
  without announcing it by a \<open>Subscribed\<close> event.
\<close>

theorem early_subscription:
  assumes "episub_reachable w z s" and "ep_local_node s = None"
    and "s' = snd (subscribe clk t s)"
  shows "fst (subscribe clk t s) \<and> ep_topics s' = [] \<and> t \<in> set (ep_pending_topics s') \<and>
    unsubscribe t s' = (False, s') \<and>
    (\<forall>s''. local_addresses params \<noteq> [] \<longrightarrow> update_local_node_info w clk' params s' = Inr s'' \<longrightarrow>
       map_of (ep_topics s'') t \<noteq> None \<and> ep_out_events s'' = ep_out_events s)"
proof -
  have none: "ep_topics s = []" using reachable_inv [OF assms(1)] assms(2) by (simp add: episub_inv_def)
  then have s': "s' = s\<lparr>ep_pending_topics := hs_insert id t (ep_pending_topics s)\<rparr>"
    using assms(2,3) by (simp add: subscribe_def)
  have "map_of (ep_topics s'') t \<noteq> None \<and> ep_out_events s'' = ep_out_events s"
    if addrs: "local_addresses params \<noteq> []" and update: "update_local_node_info w clk' params s' = Inr s''" for s''
  proof -
    define n where "n = \<lparr>peer_id = pp_local_peer_id params, addresses = local_addresses params\<rparr>"
    have "join_early w (ep_early_peers s')
        ((activate_pending clk' n (s'\<lparr>ep_local_node := Some n\<rparr>))\<lparr>ep_early_peers := []\<rparr>) = Inr s''"
      using addrs update assms(2) by (simp add: update_local_node_info_def s' n_def Let_def)
    from join_early_queue [OF this] have queue: "ep_out_events s'' = ep_out_events s"
      and names: "map fst (ep_topics s'') =
        map fst (activate_topics clk' (ep_config s) n (ep_pending_topics s') [])"
      by (simp_all add: s' none)
    from arg_cong [OF names, of set] have "t \<in> fst ` set (ep_topics s'')"
      by (simp add: activate_topics_names s')
    with queue show ?thesis by (simp add: map_of_eq_None_iff)
  qed
  with assms(2) none show ?thesis by (simp add: s' subscribe_def unsubscribe_def)
qed

theorem early_subscription_witness:
  "\<exists>s''. update_local_node_info toy_wire (\<lambda>_. 0) sample_params
       (snd (subscribe (\<lambda>_. 0) ''t'' (new_episub default_config))) = Inr s'' \<and>
     map_of (ep_topics s'') ''t'' \<noteq> None \<and> ep_out_events s'' = []"
proof -
  let ?s = "new_episub default_config"
  have none: "ep_local_node ?s = None" "ep_early_peers ?s = []" "ep_out_events ?s = []"
    by (simp_all add: new_episub_def)
  then obtain s'' where "update_local_node_info toy_wire (\<lambda>_. 0) sample_params (snd (subscribe (\<lambda>_. 0) ''t'' ?s)) = Inr s''"
    by (simp add: update_local_node_info_def subscribe_def sample_addresses new_episub_def Let_def)
  with early_subscription [OF episub_init none(1) refl, where params = sample_params] none(3) sample_addresses
  show ?thesis by fastforce
qed

subsection \<open>Publishing\<close>

text \<open>A payload that the receiver's configuration turns into \<open>message\<close>.\<close>

definition decodes_to :: "zstd \<Rightarrow> config \<Rightarrow> bytes \<Rightarrow> bytes \<Rightarrow> bool" where
  "decodes_to z c payload message \<longleftrightarrow>
     (if enable_compression c then decode_all z payload = Some message else payload = message)"

lemma publish_queues:
  assumes "zstd_roundtrips z" and "publish z r now t message a = (Inr i, a')"
    and "map_of (ep_topics a) t = Some ma" and "pt_topic (tm_tree ma) = t" and "p \<in> set (pt_eager (tm_tree ma))"
    and "cache_get i (pt_received (tm_tree ma)) = None" and "cache_get i (pt_observed (tm_tree ma)) = None"
    and "enable_compression c = enable_compression (ep_config a)"
  obtains payload ma' where "map_of (ep_topics a') t = Some ma'"
    and "NotifyHandler p (rpc_of t (Message i 1 payload)) \<in> set (pt_out_events (tm_tree ma'))"
    and "decodes_to z c payload message"
proof -
  obtain payload where payload: "(if enable_compression (ep_config a)
      then encode_all z (compression_level (ep_config a)) message else Inr message) = Inr payload"
    and a': "a' = update_topic t (mesh_publish now i payload ma) a"
    using assms(2,3) by (auto simp: publish_def Let_def split: sum.splits)
  have "decodes_to z c payload message"
    using payload assms(1,8) by (auto simp: decodes_to_def zstd_roundtrips_def split: if_splits)
  moreover have "NotifyHandler p (rpc_of t (Message i 1 payload)) \<in>
      set (pt_out_events (tm_tree (mesh_publish now i payload ma)))"
    using assms(4-7) by (auto simp: mesh_publish_def on_tree_def publish_message_def Let_def pt_notify_def
        message_of_record_def)
  ultimately show thesis
    using a' by (intro that [of "mesh_publish now i payload ma" payload])
      (simp_all add: update_topic_def update_conv')
qed

lemma message_delivered:
  assumes "map_of (ep_topics b) t = Some mb" and "q \<notin> set (ep_banned_peers b)" and "allow (ep_config b) t q"
    and "decodes_to z (pt_config (tm_tree mb)) payload message"
    and "cache_get i (pt_received (tm_tree mb)) = None"
  obtains mb' b' where "inject_event w z r clk q c (rpc_of t (Message i h payload)) b = Inr b'"
    and "map_of (ep_topics b') t = Some mb'"
    and "GenerateEvent (EvMessage (pt_topic (tm_tree mb)) i message) \<in> set (pt_out_events (tm_tree mb'))"
proof -
  have decoded: "(if enable_compression (pt_config (tm_tree mb))
      then (case decode_all z payload of None \<Rightarrow> Inl Unwrap_Err | Some out \<Rightarrow> Inr out) else Inr payload) = Inr message"
    using assms(4) by (auto simp: decodes_to_def split: if_splits)
  obtain tree where tree: "inject_message z (clk 0) q i h payload (tm_tree mb) = Inr tree"
    and "GenerateEvent (EvMessage (pt_topic (tm_tree mb)) i message) \<in> set (pt_out_events tree)"
    using inject_message_new [OF assms(5), of z "clk 0" q h payload] decoded by simp
  moreover have "inject_event w z r clk q c (rpc_of t (Message i h payload)) b =
      Inr (update_topic t (mb\<lparr>tm_tree := tree\<rparr>) b)"
    using assms(1-3) tree by (simp add: inject_event_def inject_rpc_call_def)
  ultimately show thesis
    by (intro that [of "update_topic t (mb\<lparr>tm_tree := tree\<rparr>) b" "mb\<lparr>tm_tree := tree\<rparr>"])
      (simp_all add: update_topic_def update_conv')
qed

text \<open>
  C22. What is published is what arrives. Publishing on a joined topic, under an id neither cached nor
  heard of, queues for each eager peer one message with hop count one; when a node on the same topic,
  with the same compression setting, receives it for the first time from an admitted sender, it queues
  the delivery of the original bytes, given that decompression undoes compression.
\<close>

theorem publish_arrives:
  assumes "zstd_roundtrips z" and "publish z r now t message a = (Inr i, a')"
    and "map_of (ep_topics a) t = Some ma" and "pt_topic (tm_tree ma) = t" and "p \<in> set (pt_eager (tm_tree ma))"
    and "cache_get i (pt_received (tm_tree ma)) = None" and "cache_get i (pt_observed (tm_tree ma)) = None"
    and "map_of (ep_topics b) t = Some mb" and "q \<notin> set (ep_banned_peers b)" and "allow (ep_config b) t q"
    and "enable_compression (pt_config (tm_tree mb)) = enable_compression (ep_config a)"
    and "cache_get i (pt_received (tm_tree mb)) = None"
  shows "\<exists>payload ma' mb' b'. map_of (ep_topics a') t = Some ma' \<and>
    NotifyHandler p (rpc_of t (Message i 1 payload)) \<in> set (pt_out_events (tm_tree ma')) \<and>
    inject_event w z r' clk q c (rpc_of t (Message i 1 payload)) b = Inr b' \<and>
    map_of (ep_topics b') t = Some mb' \<and>
    GenerateEvent (EvMessage (pt_topic (tm_tree mb)) i message) \<in> set (pt_out_events (tm_tree mb'))"
proof -
  obtain payload ma' where sent: "map_of (ep_topics a') t = Some ma'"
      "NotifyHandler p (rpc_of t (Message i 1 payload)) \<in> set (pt_out_events (tm_tree ma'))"
    and "decodes_to z (pt_config (tm_tree mb)) payload message"
    by (rule publish_queues [OF assms(1-7,11)])
  from message_delivered [OF assms(8-10) this(3) assms(12), of w r' clk c 1] sent show ?thesis by metis
qed

theorem publish_arrives_witness:
  "\<exists>a a' ma' payload. publish tag_zstd first_entropy 1 ''t'' [5] a = (Inr 0, a') \<and>
     map_of (ep_topics a') ''t'' = Some ma' \<and>
     NotifyHandler (PeerId [2]) (rpc_of ''t'' (Message 0 1 payload)) \<in> set (pt_out_events (tm_tree ma'))"
proof -
  define ma where "ma = on_tree (inject_neighbor_up (PeerId [2])) (new_mesh ''t'' default_config (node 0) (\<lambda>_. 0))"
  define mb where "mb = new_mesh ''t'' default_config (node 2) (\<lambda>_. 0)"
  define a where "a = (new_episub default_config)\<lparr>ep_topics := [(''t'', ma)]\<rparr>"
  define b where "b = (new_episub default_config)\<lparr>ep_topics := [(''t'', mb)]\<rparr>"
  have config: "enable_compression default_config" "authorizer default_config = (\<lambda>_ _. True)"
    by (simp_all add: default_config_def)
  have id0: "gen_u64 first_entropy 0 = 0" by (simp add: first_entropy_def)
  obtain a' where a': "publish tag_zstd first_entropy 1 ''t'' [5] a = (Inr 0, a')"
    using config id0 by (simp add: publish_def a_def new_episub_def tag_zstd_def Let_def)
  have "\<exists>payload ma' mb' b'. map_of (ep_topics a') ''t'' = Some ma' \<and>
    NotifyHandler (PeerId [2]) (rpc_of ''t'' (Message 0 1 payload)) \<in> set (pt_out_events (tm_tree ma')) \<and>
    inject_event toy_wire tag_zstd first_entropy (\<lambda>_. 0) (PeerId [0]) 0 (rpc_of ''t'' (Message 0 1 payload)) b = Inr b' \<and>
    map_of (ep_topics b') ''t'' = Some mb' \<and>
    GenerateEvent (EvMessage (pt_topic (tm_tree mb)) 0 [5]) \<in> set (pt_out_events (tm_tree mb'))"
    by (rule publish_arrives [OF tag_zstd_ok a', of ma])
      (simp_all add: a_def b_def ma_def mb_def new_episub_def on_tree_def new_mesh_def new_tree_def
        inject_neighbor_up_def allow_def config)
  with a' show ?thesis by blast
qed

subsection \<open>Lost peers\<close>

text \<open>
  A failed dial, other than one skipped because the peer was already connected, drops the peer
  from the active and the passive view of every topic; a closed connection drops it from the active view
  of every topic. No other peer leaves an active view and no topic is lost.
\<close>

theorem lost_peer_leaves_views:
  assumes "(t, m') \<in> set (ep_topics s')"
  shows "(s' = inject_dial_failure rs (Some p) e s \<and> e \<noteq> DialPeerConditionFalse \<longrightarrow>
      p \<notin> hs_keys peer_id (hv_passive (tm_nodes m'))) \<and>
    (s' = inject_dial_failure rs (Some p) e s \<and> e \<noteq> DialPeerConditionFalse \<or>
     s' = inject_connection_closed rs p s \<longrightarrow>
      map fst (ep_topics s') = map fst (ep_topics s) \<and>
      (\<exists>m. (t, m) \<in> set (ep_topics s) \<and>
        hs_keys peer_id (hv_active (tm_nodes m')) = hs_keys peer_id (hv_active (tm_nodes m)) - {p}))"
proof -
  have active: "hs_keys peer_id (hv_active (inject_disconnect r p alive v)) =
      hs_keys peer_id (hv_active v) - {p}" for r alive v
    by (auto simp: inject_disconnect_def Let_def hs_contains_iff hs_keys_def)
  have purged: "p \<notin> hs_keys peer_id (hv_passive (inject_disconnect r p False v))" for r v
    by (auto simp: inject_disconnect_def Let_def hs_keys_def)
  have topic: "\<exists>k m. (t, m) \<in> set (ep_topics s) \<and> m' = disconnected (rs k) p alive m"
    if "s' = each_topic (\<lambda>k _ m. disconnected (rs k) p alive m) s" for alive
    using that assms by (auto dest: each_topic_in)
  have "\<exists>m. (t, m) \<in> set (ep_topics s) \<and>
        hs_keys peer_id (hv_active (tm_nodes m')) = hs_keys peer_id (hv_active (tm_nodes m)) - {p}"
    if "s' = each_topic (\<lambda>k _ m. disconnected (rs k) p alive m) s" for alive
    using topic [OF that] active by (auto simp: disconnected_def on_nodes_def)
  moreover have "p \<notin> hs_keys peer_id (hv_passive (tm_nodes m'))"
    if "s' = each_topic (\<lambda>k _ m. disconnected (rs k) p False m) s"
    using topic [OF that] purged by (auto simp: disconnected_def on_nodes_def)
  ultimately show ?thesis by (auto simp: inject_dial_failure_def inject_connection_closed_def)
qed

theorem lost_peer_leaves_views_witness:
  "\<exists>s m'. (''t'', m') \<in> set (ep_topics (inject_dial_failure (\<lambda>_. first_entropy) (Some (PeerId [1])) Other_Dial_Error s)) \<and>
     s = (new_episub default_config)\<lparr>ep_topics :=
        [(''t'', (new_mesh ''t'' small_config (node 0) (\<lambda>_. 0))\<lparr>tm_nodes := small_view [node 1] [node 1]\<rparr>)]\<rparr> \<and>
     PeerId [1] \<notin> hs_keys peer_id (hv_passive (tm_nodes m'))"
proof -
  define m where "m = (new_mesh ''t'' small_config (node 0) (\<lambda>_. 0))\<lparr>tm_nodes := small_view [node 1] [node 1]\<rparr>"
  define s where "s = (new_episub default_config)\<lparr>ep_topics := [(''t'', m)]\<rparr>"
  have "(''t'', disconnected first_entropy (PeerId [1]) False m) \<in>
      set (ep_topics (inject_dial_failure (\<lambda>_. first_entropy) (Some (PeerId [1])) Other_Dial_Error s))"
    by (simp add: inject_dial_failure_def each_topic_def s_def)
  with lost_peer_leaves_views [OF this] show ?thesis unfolding s_def m_def by blast
qed

end
