(* ===== verification/Honest_Peers.thy ===== *)
theory Honest_Peers
  imports Behaviour_Properties
begin

section \<open>What a node sends, and how it is received\<close>

text \<open>
  The messages a node can send, as a type over \<open>rpc\<close>, and that every action in the queues of a topic and of
  the behaviour has it. The behaviour bans a peer whose message has no action, holds a peer that does not
  parse, or speaks in another peer's name; a message of this type is none of these, so a node running this code
  is not banned by another.
\<close>

subsection \<open>The type of a message\<close>

fun tree_rpc :: "rpc_action \<Rightarrow> bool" where
  "tree_rpc (Message _ _ _) = True"
| "tree_rpc (IHave _) = True"
| "tree_rpc Prune = True"
| "tree_rpc (Graft _) = True"
| "tree_rpc _ = False"

text \<open>A message of node \<open>me\<close> under topic \<open>t\<close>.\<close>

definition typed_rpc :: "wire_codec \<Rightarrow> peer_id \<Rightarrow> string \<Rightarrow> rpc \<Rightarrow> bool" where
  "typed_rpc w me t m \<longleftrightarrow>
     rpc_topic m = t \<and>
     (\<exists>a. rpc_action m = Some a \<and>
        (tree_rpc a \<or> (\<exists>n. peer_id n = me \<and> view_rpc w n a) \<or> (\<exists>alive. a = Disconnect alive)))"

text \<open>Of the actions only a notification carries a message.\<close>

fun typed_action :: "wire_codec \<Rightarrow> peer_id \<Rightarrow> string \<Rightarrow> action \<Rightarrow> bool" where
  "typed_action w me t (NotifyHandler q m) = typed_rpc w me t m"
| "typed_action w me t _ = True"

lemma typed_view_action: "view_action w n t a \<Longrightarrow> typed_action w (peer_id n) t a"
  by (cases a) (auto simp: typed_rpc_def split: option.splits)

subsection \<open>The tree\<close>

definition tree_typed :: "wire_codec \<Rightarrow> plumtree \<Rightarrow> bool" where
  "tree_typed w s \<longleftrightarrow> list_all (typed_action w (pt_local_node s) (pt_topic s)) (pt_out_events s)"

lemma tree_typed_notify [simp]:
  "tree_rpc a \<Longrightarrow> typed_action w me (pt_topic s) (pt_notify s a p)"
  by (auto simp: pt_notify_def typed_rpc_def)

lemma tree_typed_push [simp]:
  "tree_typed w (pt_push es s) \<longleftrightarrow>
     tree_typed w s \<and> list_all (typed_action w (pt_local_node s) (pt_topic s)) es"
  by (auto simp: tree_typed_def pt_push_def)

lemma tree_typed_frame [simp]:
  "tree_typed w (s\<lparr>pt_received := c\<rparr>) = tree_typed w s"
  "tree_typed w (s\<lparr>pt_observed := d\<rparr>) = tree_typed w s"
  "tree_typed w (s\<lparr>pt_last_tick := u\<rparr>) = tree_typed w s"
  "tree_typed w (s\<lparr>pt_eager := ps, pt_lazy := qs\<rparr>) = tree_typed w s"
  "tree_typed w (s\<lparr>pt_eager := ps\<rparr>) = tree_typed w s"
  "tree_typed w (s\<lparr>pt_lazy := ps\<rparr>) = tree_typed w s"
  "tree_typed w (s\<lparr>pt_lazy := ps, pt_eager := qs\<rparr>) = tree_typed w s"
  "tree_typed w (inject_neighbor_up p s) = tree_typed w s"
  "tree_typed w (inject_neighbor_down p s) = tree_typed w s"
  "tree_typed w (inject_prune p s) = tree_typed w s"
  "tree_typed w (inject_ihave u p i h s) = tree_typed w s"
  "tree_typed w (prune_history u s) = tree_typed w s"
  by (simp_all add: tree_typed_def inject_neighbor_up_def inject_neighbor_down_def inject_prune_def
      inject_ihave_def prune_history_def Let_def)

lemma tree_queue_pop [simp]: "tree_typed w s \<Longrightarrow> tree_typed w (snd (pt_pop s))"
  by (cases "pt_out_events s") (simp_all add: tree_typed_def pt_pop_def)

lemma pt_notifies_typed [simp]:
  "(\<And>x. tree_rpc (f x)) \<Longrightarrow> list_all (typed_action w me (pt_topic s)) (map (\<lambda>x. pt_notify s (f x) (g x)) xs)"
  by (simp add: list_all_iff)

lemma tree_typed_message:
  assumes "inject_message z u p i h m s = Inr s'" and "tree_typed w s"
  shows "tree_typed w s'"
proof (cases "cache_get i (pt_received s)")
  case None
  with assms show ?thesis by (auto simp: inject_message_new on_ok_Inr_iff list_all_iff)
next
  case (Some a)
  then have "cache_get i (pt_received s) \<noteq> None" by simp
  from inject_message_duplicate [OF this, of z u p h m] assms show ?thesis
    by (auto simp: Let_def inject_prune_def pt_notify_def typed_rpc_def split: if_splits)
qed

lemma tree_typed_publish [simp]: "tree_typed w s \<Longrightarrow> tree_typed w (publish_message u i m s)"
  by (simp add: publish_message_def Let_def message_of_record_def list_all_iff split: option.split)

lemma tree_typed_graft [simp]: "tree_typed w s \<Longrightarrow> tree_typed w (inject_graft p ids s)"
  by (simp add: inject_graft_def Let_def message_of_record_def list_all_iff pt_notify_def typed_rpc_def)

lemma tree_typed_ihaves [simp]: "tree_typed w s \<Longrightarrow> tree_typed w (inject_ihaves clk p ihaves s)"
  unfolding inject_ihaves_def
  by (rule foldl_preserves [where P = "tree_typed w"]) (simp_all add: case_prod_beta)

lemma tree_typed_timer:
  assumes "tree_timer r clk s = Inr s'" and "tree_typed w s"
  shows "tree_typed w s'"
  using assms(1) by (rule tree_timer_cases) (use assms(2) in \<open>auto simp: list_all_iff\<close>)

lemma tree_typed_poll:
  assumes "poll_tree r clk s = Inr (e, s')" and "tree_typed w s"
  shows "tree_typed w s' \<and> (\<forall>a. e = Ready a \<longrightarrow> typed_action w (pt_local_node s) (pt_topic s) a)"
proof -
  from assms(1) obtain s1 where s1: "tree_timer r clk s = Inr s1" "pt_pop s1 = (e, s')"
    by (auto simp: poll_tree_def on_ok_Inr_iff)
  have typed: "tree_typed w s1" by (rule tree_typed_timer [OF s1(1) assms(2)])
  have "tree_ident s1 = tree_ident s" by (rule tree_timer_cases [OF s1(1)]) simp_all
  then have same: "pt_local_node s1 = pt_local_node s" "pt_topic s1 = pt_topic s"
    by (simp_all add: tree_ident_def)
  have "typed_action w (pt_local_node s1) (pt_topic s1) a" if "e = Ready a" for a
    using typed s1(2) that by (auto simp: tree_queue.pop_Ready tree_typed_def)
  moreover have "tree_typed w s'" using tree_queue_pop [OF typed] s1(2) by simp
  ultimately show ?thesis by (simp add: same)
qed

lemma tree_typed_steps [simp]: "tree_typed w s \<Longrightarrow> tree_typed w (notify_tree e s)"
  by (cases "(e, s)" rule: notify_tree.cases) simp_all

subsection \<open>The topic\<close>

definition mesh_typed :: "wire_codec \<Rightarrow> topic_mesh \<Rightarrow> bool" where
  "mesh_typed w s \<longleftrightarrow>
     tree_typed w (tm_tree s) \<and> tm_out_events s = [] \<and>
     hv_topic (tm_nodes s) = pt_topic (tm_tree s) \<and>
     peer_id (hv_local_node (tm_nodes s)) = pt_local_node (tm_tree s) \<and>
     list_all (typed_action w (pt_local_node (tm_tree s)) (pt_topic (tm_tree s))) (hv_out_events (tm_nodes s))"

lemma view_op_typed:
  assumes "mesh_typed w s"
  shows "mesh_typed w (s\<lparr>tm_nodes := apply_view_op w r f (tm_nodes s)\<rparr>)"
proof -
  obtain es where "hv_out_events (apply_view_op w r f (tm_nodes s)) = hv_out_events (tm_nodes s) @ es"
    "list_all (view_action w (hv_local_node (tm_nodes s)) (hv_topic (tm_nodes s))) es"
    "hv_topic (apply_view_op w r f (tm_nodes s)) = hv_topic (tm_nodes s)"
    "hv_local_node (apply_view_op w r f (tm_nodes s)) = hv_local_node (tm_nodes s)"
    using announces_apply [of w "tm_nodes s" r f] by (auto simp: announces_def)
  with assms show ?thesis by (auto simp: mesh_typed_def list_all_iff dest!: typed_view_action)
qed

lemma mesh_typed_view:
  assumes "mesh_typed w s" and "tm_nodes s' = apply_view_op w r f (tm_nodes s)"
    and "tm_tree s' = tm_tree s" and "tm_out_events s' = tm_out_events s"
  shows "mesh_typed w s'"
  using view_op_typed [OF assms(1), of r f] assms(2-4) by (simp add: mesh_typed_def)

lemma mesh_typed_tree:
  assumes "mesh_typed w s" and "tm_nodes s' = tm_nodes s" and "tm_out_events s' = tm_out_events s"
    and "tree_typed w (tm_tree s')" and "tree_ident (tm_tree s') = tree_ident (tm_tree s)"
  shows "mesh_typed w s'"
  using assms by (simp add: mesh_typed_def tree_ident_def)

text \<open>What a remote call does to the tree, when it does anything to it.\<close>

lemma inject_rpc_call_tree:
  assumes "inject_rpc_call w z r clk p event s = Inr (res, s')" and "tree_typed w (tm_tree s)"
  shows "tree_typed w (tm_tree s')"
proof -
  from assms(1) obtain a where "rpc_action event = Some a"
    by (auto simp: inject_rpc_call_def split: option.splits)
  with assms show ?thesis
    by (cases a) (auto simp: inject_rpc_call_def on_nodes_def on_tree_def on_ok_Inr_iff
        dest: tree_typed_message split: sum.splits if_splits)
qed

lemma mesh_typed_call:
  assumes "inject_rpc_call w z r clk p event s = Inr (res, s')" and "mesh_typed w s"
  shows "mesh_typed w s'"
  using assms(1)
proof (cases rule: inject_rpc_call_cases)
  case (view f)
  show ?thesis by (rule mesh_typed_view [OF assms(2) view(1,2) inject_rpc_call_queue [OF assms(1)]])
next
  case tree
  have "tree_typed w (tm_tree s')"
    using inject_rpc_call_tree [OF assms(1)] assms(2) by (simp add: mesh_typed_def)
  then show ?thesis
    by (rule mesh_typed_tree [OF assms(2) tree(1) inject_rpc_call_queue [OF assms(1)] _ tree_ident_call [OF assms(1)]])
qed (use assms(2) in simp)

lemma mesh_typed_poll:
  assumes "poll_mesh w r clk s = Inr (e, s')" and "mesh_typed w s"
  shows "mesh_typed w s' \<and>
    (\<forall>a. e = Ready a \<longrightarrow> typed_action w (pt_local_node (tm_tree s)) (pt_topic (tm_tree s)) a)"
proof -
  have timers: "mesh_typed w (s\<lparr>tm_nodes := apply_view_op w r (Op_Timers clk) (tm_nodes s)\<rparr>)"
    by (rule view_op_typed [OF assms(2)])
  have empty: "tm_out_events s = []" using assms(2) by (simp add: mesh_typed_def)
  from assms(1) empty show ?thesis
  proof (cases rule: poll_mesh_cases)
    case (view a es)
    have "tree_ident (notify_tree a (tm_tree s)) = tree_ident (tm_tree s)" by simp
    with view timers show ?thesis by (simp add: mesh_typed_def tree_ident_def)
  next
    case (tree t)
    have "tree_typed w t \<and>
        (\<forall>a. e = Ready a \<longrightarrow> typed_action w (pt_local_node (tm_tree s)) (pt_topic (tm_tree s)) a)"
      by (rule tree_typed_poll [OF tree(2)]) (use assms(2) in \<open>simp add: mesh_typed_def\<close>)
    moreover have "tree_ident t = tree_ident (tm_tree s)" by (rule tree_ident_poll [OF tree(2)])
    ultimately show ?thesis using timers tree(3) by (simp add: mesh_typed_def tree_ident_def)
  qed
qed

lemma mesh_typed_step: "mesh_step w z s s' \<Longrightarrow> mesh_typed w s \<Longrightarrow> mesh_typed w s'"
proof (induction rule: mesh_step.induct)
  case (mesh_call r clk p event s res s')
  then show ?case by (rule mesh_typed_call)
next
  case (mesh_disconnect s r p alive)
  then show ?case
    by (rule mesh_typed_view [where f = "Op_Disconnect p alive" and r = r])
      (simp_all add: disconnected_def on_nodes_def)
next
  case (mesh_join s peer)
  then show ?case
    by (rule mesh_typed_view [where f = "Op_Initiate_Join peer"])
      (simp_all add: mesh_initiate_join_def on_nodes_def)
next
  case (mesh_send s now i payload)
  then have "tree_typed w (tm_tree s)" by (simp add: mesh_typed_def)
  then show ?case by (intro mesh_typed_tree [OF mesh_send]) (simp_all add: mesh_publish_def on_tree_def)
next
  case (mesh_poll r clk s e s')
  then show ?case using mesh_typed_poll by blast
next
  case (mesh_rehash a s b c d)
  then show ?case by (simp add: mesh_typed_def)
qed

lemma mesh_reachable_typed: "mesh_reachable w z s \<Longrightarrow> mesh_typed w s"
proof (induction rule: mesh_reachable.induct)
  case (mesh_init topic config local clk)
  show ?case by (simp add: mesh_typed_def tree_typed_def new_mesh_def new_view_def new_tree_def)
qed (rule mesh_typed_step)

subsection \<open>The behaviour\<close>

text \<open>The behaviour's own messages are disconnects, and it delivers nothing by itself.\<close>

fun own_action :: "action \<Rightarrow> bool" where
  "own_action (NotifyHandler q m) = (case rpc_action m of Some (Disconnect alive) \<Rightarrow> True | _ \<Rightarrow> False)"
| "own_action (GenerateEvent (EvMessage _ _ _)) = False"
| "own_action _ = True"

lemma own_action_typed: "own_action (NotifyHandler q m) \<Longrightarrow> typed_rpc w me (rpc_topic m) m"
  by (auto simp: typed_rpc_def split: option.splits rpc_action.splits)

lemma update_local_node_queue:
  assumes "update_local_node_info w clk params s = Inr s'"
  shows "ep_out_events s' = ep_out_events s"
  using assms by (auto simp: update_local_node_info_def Let_def dest!: join_early_queue split: if_splits)

lemma poll_queue:
  assumes "poll_episub w rs clk params s = Inr (e, s')" and "list_all own_action (ep_out_events s)"
  shows "list_all own_action (ep_out_events s')"
proof -
  from assms(1) obtain s1 where s1: "update_local_node_info w clk params s = Inr s1"
    by (auto simp: poll_episub_def on_ok_Inr_iff)
  with assms update_local_node_queue [OF s1] show ?thesis
    by (auto simp: poll_episub_def on_ok_Inr_iff split: list.splits)
qed

lemma step_queue:
  assumes "episub_step w z op s = Inr s'" and "list_all own_action (ep_out_events s)"
  shows "list_all own_action (ep_out_events s')"
proof (cases op)
  case (Ep_Established p c e)
  with assms show ?thesis
    by (auto simp: inject_connection_established_def Let_def dest!: request_join_queue
        split: if_splits connected_point.splits)
next
  case (Ep_Event r clk p c m)
  then have "inject_event w z r clk p c m s = Inr s'" using assms(1) by simp
  then show ?thesis
  proof (cases rule: inject_event_cases)
    case (called mesh res mesh')
    with assms(2) show ?thesis by (simp add: update_topic_def split: sum.splits)
  qed (use assms(2) in auto)
next
  case (Ep_Poll rs clk params)
  with assms show ?thesis by (auto simp: on_ok_Inr_iff intro: poll_queue)
next
  case (Ep_Unsubscribe t)
  with assms show ?thesis by (auto simp: unsubscribe_def Let_def list_all_iff split: option.splits)
qed (use assms in \<open>auto simp: subscribe_def publish_def update_topic_def Let_def inject_new_listen_addr_def
      inject_expired_listen_addr_def inject_dial_failure_def inject_connection_closed_def
      split: option.splits sum.splits if_splits\<close>)

lemma reachable_queue: "episub_reachable w z s \<Longrightarrow> list_all own_action (ep_out_events s)"
proof (induction rule: episub_reachable.induct)
  case (episub_init c)
  show ?case by (simp add: new_episub_def)
qed (rule step_queue)

lemma poll_topics_typed:
  assumes "poll_topics w rs clk ms = Inr (Ready a, ms')"
    and "\<forall>(t, m) \<in> set ms. mesh_of w z t (c, Some me) m"
  shows "\<exists>t. typed_action w me t a"
  using assms
proof (induction w rs clk ms arbitrary: ms' rule: poll_topics.induct)
  case (2 w rs clk t m ms)
  from "2.prems"(1) obtain polled m1 where m1: "poll_mesh w (rs 0) clk m = Inr (polled, m1)"
    by (auto simp: on_ok_Inr_iff)
  from "2.prems"(2) have "mesh_typed w m" "tree_ident (tm_tree m) = (t, c, me)"
    by (auto simp: mesh_of_def intro: mesh_reachable_typed)
  with mesh_typed_poll [OF m1] have typed: "polled = Ready b \<Longrightarrow> typed_action w me t b" for b
    by (simp add: tree_ident_def)
  show ?case
  proof (cases polled)
    case (Ready e)
    with m1 "2.prems"(1) typed show ?thesis by auto
  next
    case Pending
    with m1 "2.prems"(1) obtain ms1 where
      "poll_topics w (\<lambda>k. rs (Suc k)) (clock_from clk 11) ms = Inr (Ready a, ms1)"
      by (auto simp: on_ok_Inr_iff)
    with "2.IH" [OF Pending] "2.prems"(2) show ?thesis by auto
  qed
qed simp

lemma poll_sends_typed:
  assumes reach: "episub_reachable w z s"
    and poll: "poll_episub w rs clk params s = Inr (Ready (NotifyHandler q m), s')"
    and me: "ep_local_node s' = Some n"
  shows "typed_rpc w (peer_id n) (rpc_topic m) m"
proof -
  from poll obtain s1 where s1: "update_local_node_info w clk params s = Inr s1"
    by (auto simp: poll_episub_def on_ok_Inr_iff)
  have own: "list_all own_action (ep_out_events s1)"
    using reachable_queue [OF reach] update_local_node_queue [OF s1] by simp
  show ?thesis
  proof (cases "ep_out_events s1")
    case (Cons a es)
    with s1 poll own show ?thesis by (auto simp: poll_episub_def intro: own_action_typed)
  next
    case Nil
    with s1 poll obtain clk' ms where
      ms: "poll_topics w rs clk' (ep_topics s1) = Inr (Ready (NotifyHandler q m), ms)" "s' = s1\<lparr>ep_topics := ms\<rparr>"
      by (auto simp: poll_episub_def on_ok_Inr_iff)
    have "\<forall>(t, mesh) \<in> set (ep_topics s1). mesh_of w z t (ep_config s1, Some (peer_id n)) mesh"
      using update_local_node_inv [OF reachable_inv [OF reach] s1] me ms(2) by (simp add: episub_inv_def)
    from poll_topics_typed [OF ms(1) this] show ?thesis by (auto simp: typed_rpc_def)
  qed
qed

text \<open>Before it knows itself a node has no topic, and sends only disconnects.\<close>

lemma poll_sends_typed_as:
  assumes reach: "episub_reachable w z s"
    and poll: "poll_episub w rs clk params s = Inr (Ready (NotifyHandler q m), s')"
    and me: "\<And>n. ep_local_node s' = Some n \<Longrightarrow> peer_id n = me"
  shows "typed_rpc w me (rpc_topic m) m"
proof (cases "ep_local_node s'")
  case (Some n)
  from poll_sends_typed [OF reach poll Some] me [OF Some] show ?thesis by simp
next
  case None
  from poll obtain s1 where s1: "update_local_node_info w clk params s = Inr s1"
    by (auto simp: poll_episub_def on_ok_Inr_iff)
  have own: "list_all own_action (ep_out_events s1)"
    using reachable_queue [OF reach] update_local_node_queue [OF s1] by simp
  have "ep_local_node s1 = None"
    using None poll s1 by (auto simp: poll_episub_def on_ok_Inr_iff split: list.splits)
  then have "ep_topics s1 = []"
    using update_local_node_inv [OF reachable_inv [OF reach] s1] by (simp add: episub_inv_def)
  with poll s1 own show ?thesis
    by (cases "ep_out_events s1") (auto simp: poll_episub_def intro: own_action_typed)
qed

subsection \<open>The receiver\<close>

lemma typed_call_succeeds:
  assumes "typed_rpc w me t m" and "\<forall>p. peer_id_from_bytes w (peer_id_to_bytes w p) = Some p"
    and "inject_rpc_call w z r clk me m s = Inr (res, s')"
  shows "res = Inr ()"
proof -
  from assms(1) obtain a where a: "rpc_action m = Some a"
    "tree_rpc a \<or> (\<exists>n. peer_id n = me \<and> view_rpc w n a) \<or> (\<exists>alive. a = Disconnect alive)"
    by (auto simp: typed_rpc_def)
  have "try_from_wire w (into_wire w p) = Inr \<lparr>peer_id = peer_id p, addresses = hs_collect id
      (List.map_filter (multiaddr_from_bytes w) (map (multiaddr_to_bytes w) (addresses p)))\<rparr>" for p
    using assms(2) by (simp add: try_from_wire_def into_wire_def)
  with a assms(3) show ?thesis
    by (cases a) (auto simp: inject_rpc_call_def encoded_peer_def on_ok_Inr_iff)
qed

lemma typed_event_bans:
  assumes "typed_rpc w p (rpc_topic m) m" and "\<forall>p. peer_id_from_bytes w (peer_id_to_bytes w p) = Some p"
    and "inject_event w z r clk p c m t = Inr t'"
  shows "ep_banned_peers t' = ep_banned_peers t"
proof -
  have "rpc_action m \<noteq> None" using assms(1) by (auto simp: typed_rpc_def)
  with assms(3) typed_call_succeeds [OF assms(1,2)] show ?thesis
    by (fastforce simp: inject_event_def on_ok_Inr_iff Let_def update_topic_def split: if_splits option.splits)
qed


text \<open>A codec that reads every identifier it writes.\<close>

definition full_wire :: wire_codec where
  "full_wire = toy_wire\<lparr>peer_id_from_bytes := (\<lambda>b. Some (PeerId b))\<rparr>"

lemma full_wire_ids: "\<forall>p. peer_id_from_bytes full_wire (peer_id_to_bytes full_wire p) = Some p"
  by (simp add: full_wire_def toy_wire_def split: peer_id.split)


end
