(* ===== verification/Mesh_Invariants.thy ===== *)
theory Mesh_Invariants
  imports Honest_Peers
begin

section \<open>From the topics to the node\<close>

text \<open>
  A node is its topics and little else: a predicate that every operation of a topic keeps, provided the
  messages that come in and the payloads that are published are of some kind, holds of all the topics of a
  node through every operation of the node, and what the node emits is what its topics emit or a message of
  the node's own. The locale states this contract, with the configuration and the name of the topic as
  parameters of the predicate.
\<close>

definition topics_ok :: "(config \<Rightarrow> string \<Rightarrow> topic_mesh \<Rightarrow> bool) \<Rightarrow> episub \<Rightarrow> bool" where
  "topics_ok ok s \<longleftrightarrow> (\<forall>(t, m) \<in> set (ep_topics s). ok (ep_config s) t m) \<and> list_all own_action (ep_out_events s)"

lemma topics_ok_frame [simp]:
  "topics_ok ok (s\<lparr>ep_local_node := n\<rparr>) = topics_ok ok s"
  "topics_ok ok (s\<lparr>ep_peer_addresses := a\<rparr>) = topics_ok ok s"
  "topics_ok ok (s\<lparr>ep_early_peers := ps\<rparr>) = topics_ok ok s"
  "topics_ok ok (force_disconnect p c s) = topics_ok ok s"
  by (simp_all add: topics_ok_def)

text \<open>What an operation brings into the node: a message it does not refuse, a payload it publishes.\<close>

definition wire_payload :: "zstd \<Rightarrow> config \<Rightarrow> bytes \<Rightarrow> io_error + bytes" where
  "wire_payload z c m = (if enable_compression c then encode_all z (compression_level c) m else Inr m)"

fun brings :: "zstd \<Rightarrow> (rpc \<Rightarrow> bool) \<Rightarrow> (string \<Rightarrow> u64 \<Rightarrow> bytes \<Rightarrow> bool) \<Rightarrow> episub \<Rightarrow> episub_op \<Rightarrow> bool" where
  "brings z receives publishes s (Ep_Event r clk p c m) =
     (allow (ep_config s) (rpc_topic m) p \<longrightarrow> receives m)"
| "brings z receives publishes s (Ep_Publish r now t m) =
     (\<forall>x. wire_payload z (ep_config s) m = Inr x \<longrightarrow> publishes t (gen_u64 r 0) x)"
| "brings z receives publishes s _ = True"

subsection \<open>The configuration never changes\<close>

lemma request_join_config:
  "request_join_for_starving_topics w p s = Inr s' \<Longrightarrow> ep_config s' = ep_config s"
  using request_join_cases [of w p s s'] by auto

lemma join_early_config: "join_early w ps s = Inr s' \<Longrightarrow> ep_config s' = ep_config s"
proof (induction ps arbitrary: s)
  case (Cons p ps)
  then obtain s1 where "request_join_for_starving_topics w p s = Inr s1" "join_early w ps s1 = Inr s'"
    by (auto simp: on_ok_Inr_iff)
  with Cons.IH request_join_config show ?case by metis
qed simp

lemma update_local_node_config:
  "update_local_node_info w clk params s = Inr s' \<Longrightarrow> ep_config s' = ep_config s"
  by (auto simp: update_local_node_info_def Let_def dest!: join_early_config split: if_splits)

lemma poll_config: "poll_episub w rs clk params s = Inr (e, s') \<Longrightarrow> ep_config s' = ep_config s"
  by (auto simp: poll_episub_def on_ok_Inr_iff neq_Nil_conv dest!: update_local_node_config split: list.split_asm)

lemma event_config: "inject_event w z r clk p c m s = Inr s' \<Longrightarrow> ep_config s' = ep_config s"
  by (erule inject_event_cases) (auto simp: update_topic_def split: sum.splits)

lemma established_config:
  "inject_connection_established w p c e s = Inr s' \<Longrightarrow> ep_config s' = ep_config s"
  by (auto simp: inject_connection_established_def Let_def dest!: request_join_config
      split: if_splits connected_point.splits)

lemma step_config: "episub_step w z op s = Inr s' \<Longrightarrow> ep_config s' = ep_config s"
  by (cases op) (auto simp: on_ok_Inr_iff subscribe_def unsubscribe_def publish_def update_topic_def Let_def
      inject_new_listen_addr_def inject_expired_listen_addr_def inject_dial_failure_def
      inject_connection_closed_def dest: poll_config event_config established_config
      split: option.splits sum.splits if_splits)

subsection \<open>The contract\<close>

locale mesh_invariant =
  fixes w :: wire_codec and z :: zstd
    and ok :: "config \<Rightarrow> string \<Rightarrow> topic_mesh \<Rightarrow> bool"
    and receives :: "rpc \<Rightarrow> bool"
    and publishes :: "string \<Rightarrow> u64 \<Rightarrow> bytes \<Rightarrow> bool"
    and emits :: "config \<Rightarrow> action \<Rightarrow> bool"
  assumes new_ok: "ok c t (new_mesh t c n clk)"
    and disconnected_ok: "ok c t m \<Longrightarrow> ok c t (disconnected r p alive m)"
    and join_ok: "ok c t m \<Longrightarrow> ok c t (mesh_initiate_join w peer m)"
    and publish_ok: "ok c t m \<Longrightarrow> publishes t i x \<Longrightarrow> ok c t (mesh_publish now i x m)"
    and call_ok: "ok c t m \<Longrightarrow> receives event \<Longrightarrow> rpc_topic event = t \<Longrightarrow>
      inject_rpc_call w z r clk p event m = Inr (res, m') \<Longrightarrow> ok c t m'"
    and poll_ok: "ok c t m \<Longrightarrow> poll_mesh w r clk m = Inr (polled, m') \<Longrightarrow>
      ok c t m' \<and> (\<forall>a. polled = Ready a \<longrightarrow> emits c a)"
    and own_emits: "own_action a \<Longrightarrow> emits c a"
begin

lemma each_topic_ok:
  assumes "topics_ok ok s" and "\<And>k t m. ok (ep_config s) t m \<Longrightarrow> ok (ep_config s) t (f k t m)"
  shows "topics_ok ok (each_topic f s)"
  using assms each_topic_in [of _ _ f s] by (fastforce simp: topics_ok_def)

lemma update_topic_ok:
  "topics_ok ok s \<Longrightarrow> ok (ep_config s) t m \<Longrightarrow> topics_ok ok (update_topic t m s)"
  using set_alist_update [of t m "ep_topics s"] by (auto simp: topics_ok_def update_topic_def)

lemma topic_ok: "topics_ok ok s \<Longrightarrow> map_of (ep_topics s) t = Some m \<Longrightarrow> ok (ep_config s) t m"
  by (auto simp: topics_ok_def dest: map_of_SomeD)

lemma request_join_ok:
  assumes "topics_ok ok s" and "request_join_for_starving_topics w p s = Inr s'"
  shows "topics_ok ok s'"
  using request_join_cases [OF assms(2)]
proof (elim disjE exE conjE)
  fix f
  assume f: "s' = each_topic f s" "\<forall>k t m. f k t m = m \<or> (\<exists>a. f k t m = mesh_initiate_join w a m)"
  have "ok (ep_config s) t (f k t m)" if "ok (ep_config s) t m" for k t m
    using that f(2) join_ok [OF that] by metis
  with assms(1) f(1) show ?thesis by (simp add: each_topic_ok)
qed (use assms(1) in simp)

lemma join_early_ok: "topics_ok ok s \<Longrightarrow> join_early w ps s = Inr s' \<Longrightarrow> topics_ok ok s'"
proof (induction ps arbitrary: s)
  case (Cons p ps)
  then obtain s1 where "request_join_for_starving_topics w p s = Inr s1" "join_early w ps s1 = Inr s'"
    by (auto simp: on_ok_Inr_iff)
  with Cons.IH request_join_ok [OF Cons.prems(1)] show ?case by blast
qed simp

lemma update_local_node_ok:
  assumes "topics_ok ok s" and "update_local_node_info w clk params s = Inr s'"
  shows "topics_ok ok s'"
proof (cases "ep_local_node s = None \<and> local_addresses params \<noteq> []")
  case True
  define n where "n = \<lparr>peer_id = pp_local_peer_id params, addresses = local_addresses params\<rparr>"
  define s1 where "s1 = (activate_pending clk n (s\<lparr>ep_local_node := Some n\<rparr>))\<lparr>ep_early_peers := []\<rparr>"
  have early: "join_early w (ep_early_peers s) s1 = Inr s'"
    using True assms(2) by (simp add: update_local_node_info_def n_def s1_def Let_def)
  have "topics_ok ok s1"
    using assms(1) by (auto simp: topics_ok_def s1_def dest!: activate_topics_meshes intro: new_ok)
  then show ?thesis using early by (rule join_early_ok)
qed (use assms in \<open>auto simp: update_local_node_info_def Let_def split: if_splits\<close>)

lemma poll_topics_ok:
  "poll_topics w rs clk ms = Inr (polled, ms') \<Longrightarrow> \<forall>(t, m) \<in> set ms. ok c t m \<Longrightarrow>
   (\<forall>(t, m) \<in> set ms'. ok c t m) \<and> (\<forall>a. polled = Ready a \<longrightarrow> emits c a)"
proof (induction ms arbitrary: rs clk polled ms')
  case (Cons x ms)
  obtain t m where x: "x = (t, m)" by (cases x)
  with Cons.prems(1) obtain polled1 m1 where m1: "poll_mesh w (rs 0) clk m = Inr (polled1, m1)"
    by (auto simp: on_ok_Inr_iff)
  have ok: "ok c t m1 \<and> (\<forall>a. polled1 = Ready a \<longrightarrow> emits c a)"
    using Cons.prems(2) x by (intro poll_ok [OF _ m1]) simp
  show ?case
  proof (cases polled1)
    case (Ready e)
    with m1 Cons.prems ok x show ?thesis by auto
  next
    case Pending
    with m1 Cons.prems(1) x obtain ms1 where
      "poll_topics w (\<lambda>k. rs (Suc k)) (clock_from clk 11) ms = Inr (polled, ms1)" "ms' = (t, m1) # ms1"
      by (auto simp: on_ok_Inr_iff)
    with Cons.IH Cons.prems(2) ok show ?thesis by auto
  qed
qed simp

lemma poll_episub_ok:
  assumes "topics_ok ok s" and "poll_episub w rs clk params s = Inr (e, s')"
  shows "topics_ok ok s' \<and> (\<forall>a. e = Ready a \<longrightarrow> emits (ep_config s) a)"
proof -
  from assms(2) obtain s1 where s1: "update_local_node_info w clk params s = Inr s1"
    by (auto simp: poll_episub_def on_ok_Inr_iff)
  note s1_ok = update_local_node_ok [OF assms(1) s1] and same = update_local_node_config [OF s1]
  show ?thesis
  proof (cases "ep_out_events s1")
    case (Cons a es)
    with s1 assms(2) s1_ok show ?thesis by (auto simp: poll_episub_def topics_ok_def intro: own_emits)
  next
    case Nil
    with s1 assms(2) obtain clk' ms where ms: "poll_topics w rs clk' (ep_topics s1) = Inr (e, ms)"
      "s' = s1\<lparr>ep_topics := ms\<rparr>"
      by (auto simp: poll_episub_def on_ok_Inr_iff)
    from poll_topics_ok [OF ms(1), of "ep_config s"] s1_ok same ms(2) Nil show ?thesis
      by (auto simp: topics_ok_def)
  qed
qed

lemma event_ok:
  assumes "topics_ok ok s" and "inject_event w z r clk p c m s = Inr s'"
    and "allow (ep_config s) (rpc_topic m) p \<longrightarrow> receives m"
  shows "topics_ok ok s'"
  using assms(2)
proof (cases rule: inject_event_cases)
  case (called mesh res mesh')
  have "ok (ep_config s) (rpc_topic m) mesh'"
    using called(2,5) assms(1,3) by (intro call_ok [OF topic_ok [OF assms(1) called(1)]]) simp_all
  then have "topics_ok ok (update_topic (rpc_topic m) mesh' s)" by (rule update_topic_ok [OF assms(1)])
  with called(4) show ?thesis by (auto simp: topics_ok_def split: sum.splits)
qed (use assms(1) in \<open>auto simp: topics_ok_def\<close>)

lemma step_ok:
  assumes "topics_ok ok s" and "episub_step w z op s = Inr s'" and "brings z receives publishes s op"
  shows "topics_ok ok s'"
proof (cases op)
  case (Ep_Subscribe clk t)
  with assms show ?thesis by (auto simp: topics_ok_def subscribe_def intro: new_ok split: option.splits)
next
  case (Ep_Unsubscribe t)
  with assms show ?thesis
    by (auto simp: topics_ok_def unsubscribe_def Let_def list_all_iff split: option.splits)
next
  case (Ep_Publish r now t m)
  with assms topic_ok [OF assms(1)] show ?thesis
    by (auto simp: publish_def wire_payload_def Let_def intro!: update_topic_ok publish_ok
        split: option.splits sum.splits if_splits)
next
  case (Ep_Established p c e)
  have "topics_ok ok (s\<lparr>ep_peer_addresses := a\<rparr>)" for a using assms(1) by simp
  from Ep_Established assms(1,2) request_join_ok [OF this] show ?thesis
    by (auto simp: inject_connection_established_def Let_def split: if_splits connected_point.splits)
next
  case (Ep_Event r clk p c m)
  with assms event_ok show ?thesis by simp
next
  case (Ep_Poll rs clk params)
  with assms poll_episub_ok show ?thesis by (auto simp: on_ok_Inr_iff)
qed (use assms in \<open>auto simp: inject_new_listen_addr_def inject_expired_listen_addr_def inject_dial_failure_def
      inject_connection_closed_def intro!: each_topic_ok
      intro: disconnected_ok split: option.splits if_splits\<close>)

end

end
