(* ===== verification/Genuine.thy ===== *)
theory Genuine
  imports Mesh_Invariants
begin

section \<open>Where a message comes from\<close>

text \<open>
  A topic neither makes up nor alters a message: with a set of payloads that may circulate, and only those
  received and published, every message in its queues and its cache, and every delivery, is of the set. The
  interpretation of \<open>mesh_invariant\<close> carries this to the node.
\<close>

subsection \<open>Genuine messages\<close>

text \<open>\<open>G\<close> holds the payloads, as they travel, that may circulate under a topic and an id.\<close>

definition genuine_rpc :: "(string \<times> u64 \<times> bytes) set \<Rightarrow> rpc \<Rightarrow> bool" where
  "genuine_rpc G m \<longleftrightarrow> (\<forall>i h x. rpc_action m = Some (Message i h x) \<longrightarrow> (rpc_topic m, i, x) \<in> G)"

definition opened :: "zstd \<Rightarrow> config \<Rightarrow> bytes \<Rightarrow> bytes option" where
  "opened z c x = (if enable_compression c then decode_all z x else Some x)"

fun genuine_action :: "zstd \<Rightarrow> (string \<times> u64 \<times> bytes) set \<Rightarrow> config \<Rightarrow> action \<Rightarrow> bool" where
  "genuine_action z G c (NotifyHandler q m) = genuine_rpc G m"
| "genuine_action z G c (GenerateEvent (EvMessage t i out)) = (\<exists>x. (t, i, x) \<in> G \<and> opened z c x = Some out)"
| "genuine_action z G c _ = True"

definition all_stored :: "('a \<Rightarrow> bool) \<Rightarrow> ('k, 'a) expiring_cache \<Rightarrow> bool" where
  "all_stored P c \<longleftrightarrow> (\<forall>k r. cache_get k c = Some r \<longrightarrow> P r)"

definition tree_genuine :: "zstd \<Rightarrow> (string \<times> u64 \<times> bytes) set \<Rightarrow> config \<Rightarrow> string \<Rightarrow> plumtree \<Rightarrow> bool" where
  "tree_genuine z G c t s \<longleftrightarrow>
     pt_config s = c \<and> pt_topic s = t \<and> list_all (genuine_action z G c) (pt_out_events s) \<and>
     all_stored (\<lambda>r. (t, mr_id r, mr_payload r) \<in> G) (pt_received s)"

definition mesh_genuine :: "zstd \<Rightarrow> (string \<times> u64 \<times> bytes) set \<Rightarrow> config \<Rightarrow> string \<Rightarrow> topic_mesh \<Rightarrow> bool" where
  "mesh_genuine z G c t s \<longleftrightarrow>
     tree_genuine z G c t (tm_tree s) \<and> tm_out_events s = [] \<and>
     list_all (genuine_action z G c) (hv_out_events (tm_nodes s))"

lemma genuine_action_mono: "genuine_action z G c a \<Longrightarrow> G \<subseteq> G' \<Longrightarrow> genuine_action z G' c a"
  by (induction z G c a rule: genuine_action.induct) (auto simp: genuine_rpc_def)

lemma genuine_actions_mono:
  "list_all (genuine_action z G c) es \<Longrightarrow> G \<subseteq> G' \<Longrightarrow> list_all (genuine_action z G' c) es"
  by (induction es) (auto intro: genuine_action_mono)

lemma mesh_genuine_mono: "mesh_genuine z G c t s \<Longrightarrow> G \<subseteq> G' \<Longrightarrow> mesh_genuine z G' c t s"
  by (auto simp: mesh_genuine_def tree_genuine_def all_stored_def intro: genuine_actions_mono)

lemma topics_genuine_mono:
  "topics_ok (mesh_genuine z G) s \<Longrightarrow> G \<subseteq> G' \<Longrightarrow> topics_ok (mesh_genuine z G') s"
  using mesh_genuine_mono by (fastforce simp: topics_ok_def)

lemma own_genuine: "own_action a \<Longrightarrow> genuine_action z G c a"
  by (induction z G c a rule: genuine_action.induct)
    (auto simp: genuine_rpc_def split: option.splits rpc_action.splits)

lemma view_genuine: "view_action w n t a \<Longrightarrow> genuine_action z G c a"
  by (induction z G c a rule: genuine_action.induct) (auto simp: genuine_rpc_def split: option.splits)

lemma views_genuine: "list_all (view_action w n t) es \<Longrightarrow> list_all (genuine_action z G c) es"
  by (auto simp: list_all_iff intro: view_genuine)

subsection \<open>The cache of a tree\<close>

lemma all_stored_new [simp]: "all_stored P cache_new"
  by (simp add: all_stored_def)

lemma all_stored_insert: "all_stored P c \<Longrightarrow> P x \<Longrightarrow> all_stored P (snd (cache_insert mr_id u x c))"
  by (auto simp: all_stored_def received_store.lookup_insert split: if_splits option.splits)

lemma expire_loop_shrinks: "fst (expire_loop key since data es) k = Some e \<Longrightarrow> data k = Some e"
  by (induction es arbitrary: data) (fastforce split: if_splits)+

lemma all_stored_expire: "all_stored P c \<Longrightarrow> all_stored P (remove_older_than key since c)"
  unfolding all_stored_def cache_get_def remove_older_than_def
  by (auto simp: case_prod_beta dest!: expire_loop_shrinks)

subsection \<open>The operations of a topic\<close>

lemma tree_genuine_frame [simp]:
  "tree_genuine z G c t (s\<lparr>pt_observed := d\<rparr>) = tree_genuine z G c t s"
  "tree_genuine z G c t (s\<lparr>pt_last_tick := u\<rparr>) = tree_genuine z G c t s"
  "tree_genuine z G c t (inject_neighbor_up p s) = tree_genuine z G c t s"
  "tree_genuine z G c t (inject_neighbor_down p s) = tree_genuine z G c t s"
  "tree_genuine z G c t (inject_prune p s) = tree_genuine z G c t s"
  "tree_genuine z G c t (inject_ihave u p i h s) = tree_genuine z G c t s"
  by (simp_all add: tree_genuine_def inject_neighbor_up_def inject_neighbor_down_def inject_prune_def
      inject_ihave_def)

lemma tree_genuine_push [simp]:
  "tree_genuine z G c t (pt_push es s) \<longleftrightarrow> tree_genuine z G c t s \<and> list_all (genuine_action z G c) es"
  by (auto simp: tree_genuine_def pt_push_def)

lemma tree_genuine_prune [simp]: "tree_genuine z G c t s \<Longrightarrow> tree_genuine z G c t (prune_history u s)"
  by (simp add: tree_genuine_def prune_history_def Let_def all_stored_expire)

lemma tree_genuine_insert:
  "tree_genuine z G c t s \<Longrightarrow> (t, i, x) \<in> G \<Longrightarrow>
   tree_genuine z G c t (s\<lparr>pt_received := snd (cache_insert mr_id u (MessageRecord i h p x) (pt_received s))\<rparr>)"
  by (simp add: tree_genuine_def all_stored_insert)

lemma notify_genuine [simp]:
  "genuine_action z G c (pt_notify s a p) \<longleftrightarrow> (\<forall>i h x. a = Message i h x \<longrightarrow> (pt_topic s, i, x) \<in> G)"
  by (simp add: pt_notify_def genuine_rpc_def)

lemma tree_genuine_publish:
  "tree_genuine z G c t s \<Longrightarrow> (t, i, x) \<in> G \<Longrightarrow> tree_genuine z G c t (publish_message u i x s)"
  using tree_genuine_insert [of z G c t s i x]
  by (auto simp: publish_message_def Let_def message_of_record_def list_all_iff tree_genuine_def pt_push_def
      split: option.split)

lemma tree_genuine_message:
  assumes "tree_genuine z G c t s" and "(t, i, x) \<in> G" and "inject_message z u p i h x s = Inr s'"
  shows "tree_genuine z G c t s'"
proof (cases "cache_get i (pt_received s)")
  case None
  have "pt_config s = c" "pt_topic s = t" using assms(1) by (simp_all add: tree_genuine_def)
  with None assms tree_genuine_insert [OF assms(1,2)] show ?thesis
    by (auto simp: inject_message_new on_ok_Inr_iff list_all_iff opened_def split: if_splits option.splits)
next
  case (Some a)
  then have "cache_get i (pt_received s) \<noteq> None" by simp
  from inject_message_duplicate [OF this, of z u p h x] assms tree_genuine_insert [OF assms(1,2)]
  show ?thesis by (auto simp: Let_def split: if_splits)
qed

lemma tree_genuine_graft: "tree_genuine z G c t s \<Longrightarrow> tree_genuine z G c t (inject_graft p ids s)"
  by (auto simp: inject_graft_def Let_def message_of_record_def list_all_iff tree_genuine_def pt_push_def
      all_stored_def List.map_filter_def split: option.splits)

lemma tree_genuine_ihaves: "tree_genuine z G c t s \<Longrightarrow> tree_genuine z G c t (inject_ihaves clk p ihaves s)"
  unfolding inject_ihaves_def
  by (rule foldl_preserves [where P = "tree_genuine z G c t"]) (simp_all add: case_prod_beta)

lemma tree_genuine_poll:
  assumes "tree_genuine z G c t s" and "poll_tree r clk s = Inr (e, s')"
  shows "tree_genuine z G c t s' \<and> (\<forall>a. e = Ready a \<longrightarrow> genuine_action z G c a)"
proof -
  from assms(2) obtain s1 where s1: "tree_timer r clk s = Inr s1" "pt_pop s1 = (e, s')"
    by (auto simp: poll_tree_def on_ok_Inr_iff)
  from s1(1) have "tree_genuine z G c t s1"
    by (rule tree_timer_cases) (use assms(1) in \<open>auto simp: list_all_iff intro!: tree_genuine_prune\<close>)
  with s1(2) show ?thesis by (auto simp: pt_pop_def tree_genuine_def split: list.splits)
qed

lemma tree_genuine_notify [simp]: "tree_genuine z G c t (notify_tree e s) = tree_genuine z G c t s"
  by (induction e s rule: notify_tree.induct) simp_all

lemma mesh_genuine_view:
  assumes "mesh_genuine z G c t s"
  shows "mesh_genuine z G c t (s\<lparr>tm_nodes := apply_view_op w r f (tm_nodes s)\<rparr>)"
  using assms announces_apply [of w "tm_nodes s" r f]
  by (auto simp: mesh_genuine_def announces_def intro: views_genuine)

lemma mesh_genuine_call:
  assumes "mesh_genuine z G c t s" and "genuine_rpc G event" and "rpc_topic event = t"
    and "inject_rpc_call w z r clk p event s = Inr (res, s')"
  shows "mesh_genuine z G c t s'"
proof -
  from assms(4) obtain a where a: "rpc_action event = Some a"
    by (auto simp: inject_rpc_call_def split: option.splits)
  have "tree_genuine z G c t (tm_tree s)" using assms(1) by (simp add: mesh_genuine_def)
  note ops = tree_genuine_message [OF this] tree_genuine_graft [OF this] tree_genuine_ihaves [OF this] this
  have tree: "tree_genuine z G c t (tm_tree s')"
    by (cases a; use a assms(2-4) ops in \<open>force simp: inject_rpc_call_def on_nodes_def on_tree_def on_ok_Inr_iff
          genuine_rpc_def split: sum.splits if_splits\<close>)
  from assms(4) show ?thesis
  proof (cases rule: inject_rpc_call_cases)
    case (view f)
    with mesh_genuine_view [OF assms(1), of w r f] inject_rpc_call_queue [OF assms(4)] show ?thesis
      by (simp add: mesh_genuine_def)
  next
    case tree
    with \<open>tree_genuine z G c t (tm_tree s')\<close> assms(1) inject_rpc_call_queue [OF assms(4)] show ?thesis
      by (simp add: mesh_genuine_def)
  qed (use assms(1) in simp)
qed

lemma mesh_genuine_poll:
  assumes "mesh_genuine z G c t s" and "poll_mesh w r clk s = Inr (e, s')"
  shows "mesh_genuine z G c t s' \<and> (\<forall>a. e = Ready a \<longrightarrow> genuine_action z G c a)"
proof -
  have timers: "mesh_genuine z G c t (s\<lparr>tm_nodes := apply_view_op w r (Op_Timers clk) (tm_nodes s)\<rparr>)"
    by (rule mesh_genuine_view [OF assms(1)])
  have "tm_out_events s = []" using assms(1) by (simp add: mesh_genuine_def)
  with assms(2) show ?thesis
  proof (cases rule: poll_mesh_cases)
    case (view a es)
    with timers show ?thesis by (simp add: mesh_genuine_def)
  next
    case (tree u)
    from tree_genuine_poll [OF _ tree(2), of z G c t] assms(1) timers tree(3) show ?thesis
      by (simp add: mesh_genuine_def)
  qed
qed

interpretation genuine: mesh_invariant w z "mesh_genuine z G" "genuine_rpc G" "\<lambda>t i x. (t, i, x) \<in> G"
  "genuine_action z G" for w z G
proof unfold_locales
  fix c t n clk
  show "mesh_genuine z G c t (new_mesh t c n clk)"
    by (simp add: mesh_genuine_def tree_genuine_def new_mesh_def new_tree_def new_view_def)
next
  fix c t m r p alive
  assume "mesh_genuine z G c t m"
  from mesh_genuine_view [OF this, of w r "Op_Disconnect p alive"]
  show "mesh_genuine z G c t (disconnected r p alive m)" by (simp add: disconnected_def on_nodes_def)
next
  fix c t m peer
  assume "mesh_genuine z G c t m"
  from mesh_genuine_view [OF this, of w _ "Op_Initiate_Join peer"]
  show "mesh_genuine z G c t (mesh_initiate_join w peer m)" by (simp add: mesh_initiate_join_def on_nodes_def)
next
  fix c t m i x now
  assume "mesh_genuine z G c t m" and "(t, i, x) \<in> G"
  then show "mesh_genuine z G c t (mesh_publish now i x m)"
    by (simp add: mesh_genuine_def mesh_publish_def on_tree_def tree_genuine_publish)
next
  fix c t m event r clk p res m'
  assume "mesh_genuine z G c t m" "genuine_rpc G event" "rpc_topic event = t"
    "inject_rpc_call w z r clk p event m = Inr (res, m')"
  then show "mesh_genuine z G c t m'" by (rule mesh_genuine_call)
next
  fix c t m r clk polled m'
  assume "mesh_genuine z G c t m" "poll_mesh w r clk m = Inr (polled, m')"
  then show "mesh_genuine z G c t m' \<and> (\<forall>a. polled = Ready a \<longrightarrow> genuine_action z G c a)"
    by (rule mesh_genuine_poll)
qed (rule own_genuine)

end
