(* ===== verification/Swarm.thy ===== *)
theory Swarm
  imports Genuine
begin

section \<open>Only members publish\<close>

text \<open>
  Several nodes and the network between them. The nodes of a set run this code; every other peer may send
  them anything, at any time. A message that has been sent can be received any number of times, in any order
  or never. A connection names the true sender, which the transport authenticates. When the authorizers admit
  only members of the set to a topic, what the topic delivers has been published by a member.
\<close>

subsection \<open>The swarm\<close>

record swarm =
  sw_node :: "peer_id \<Rightarrow> episub"
  sw_sent :: "(peer_id \<times> peer_id \<times> rpc) set"
  sw_delivered :: "(peer_id \<times> episub_event) list"
  sw_published :: "(peer_id \<times> string \<times> u64 \<times> bytes) set"

definition swarm_start :: "(peer_id \<Rightarrow> config) \<Rightarrow> swarm" where
  "swarm_start cfg =
     \<lparr>sw_node = (\<lambda>v. new_episub (cfg v)), sw_sent = {}, sw_delivered = [], sw_published = {}\<rparr>"

text \<open>\<open>Sw_Local\<close> is for the operations that neither publish nor touch the network.\<close>

datatype swarm_op =
    Sw_Publish peer_id entropy instant string bytes
  | Sw_Local peer_id episub_op
  | Sw_Receive peer_id peer_id connection_id rpc entropy clock
  | Sw_Poll peer_id "nat \<Rightarrow> entropy" clock poll_params
  | Sw_Outsider peer_id peer_id rpc

fun is_local :: "episub_op \<Rightarrow> bool" where
  "is_local (Ep_Publish _ _ _ _) = False"
| "is_local (Ep_Event _ _ _ _ _) = False"
| "is_local (Ep_Poll _ _ _) = False"
| "is_local _ = True"

definition sw_update :: "peer_id \<Rightarrow> episub \<Rightarrow> swarm \<Rightarrow> swarm" where
  "sw_update v e s = s\<lparr>sw_node := (sw_node s)(v := e)\<rparr>"

fun emit :: "peer_id \<Rightarrow> action poll \<Rightarrow> swarm \<Rightarrow> swarm" where
  "emit v (Ready (NotifyHandler q m)) s = s\<lparr>sw_sent := insert (v, q, m) (sw_sent s)\<rparr>"
| "emit v (Ready (GenerateEvent e)) s = s\<lparr>sw_delivered := sw_delivered s @ [(v, e)]\<rparr>"
| "emit v _ s = s"

text \<open>A step that is not possible, or in which a node panics, is \<open>None\<close>.\<close>

fun swarm_step :: "wire_codec \<Rightarrow> zstd \<Rightarrow> peer_id set \<Rightarrow> swarm_op \<Rightarrow> swarm \<Rightarrow> swarm option" where
  "swarm_step w z H (Sw_Publish v r now t m) s =
     (if v \<in> H then
        (case publish z r now t m (sw_node s v) of
           (Inr i, e) \<Rightarrow> Some (sw_update v e (s\<lparr>sw_published := insert (v, t, i, m) (sw_published s)\<rparr>))
         | (Inl _, e) \<Rightarrow> Some (sw_update v e s))
      else None)"
| "swarm_step w z H (Sw_Local v op) s =
     (if v \<in> H \<and> is_local op then
        (case episub_step w z op (sw_node s v) of Inr e \<Rightarrow> Some (sw_update v e s) | Inl _ \<Rightarrow> None)
      else None)"
| "swarm_step w z H (Sw_Receive p v c m r clk) s =
     (if v \<in> H \<and> (p, v, m) \<in> sw_sent s then
        (case inject_event w z r clk p c m (sw_node s v) of
           Inr e \<Rightarrow> Some (sw_update v e s) | Inl _ \<Rightarrow> None)
      else None)"
| "swarm_step w z H (Sw_Poll v rs clk params) s =
     (if v \<in> H \<and> pp_local_peer_id params = v then
        (case poll_episub w rs clk params (sw_node s v) of
           Inr (polled, e) \<Rightarrow> Some (emit v polled (sw_update v e s)) | Inl _ \<Rightarrow> None)
      else None)"
| "swarm_step w z H (Sw_Outsider p q m) s =
     (if p \<in> H then None else Some (s\<lparr>sw_sent := insert (p, q, m) (sw_sent s)\<rparr>))"

fun swarm_run :: "wire_codec \<Rightarrow> zstd \<Rightarrow> peer_id set \<Rightarrow> swarm_op list \<Rightarrow> swarm \<Rightarrow> swarm option" where
  "swarm_run w z H [] s = Some s"
| "swarm_run w z H (op # ops) s =
     (case swarm_step w z H op s of None \<Rightarrow> None | Some s' \<Rightarrow> swarm_run w z H ops s')"

subsection \<open>The invariant\<close>

text \<open>The payloads that may circulate: under the topic \<open>tp\<close>, those that members have published.\<close>

definition vouched ::
  "zstd \<Rightarrow> (peer_id \<Rightarrow> config) \<Rightarrow> peer_id set \<Rightarrow> string \<Rightarrow> swarm \<Rightarrow> (string \<times> u64 \<times> bytes) set" where
  "vouched z cfg H tp s =
     {(t, i, x). t = tp \<longrightarrow>
        (\<exists>u \<in> H. \<exists>m. (u, tp, i, m) \<in> sw_published s \<and> wire_payload z (cfg u) m = Inr x)}"

definition swarm_inv :: "zstd \<Rightarrow> (peer_id \<Rightarrow> config) \<Rightarrow> peer_id set \<Rightarrow> string \<Rightarrow> swarm \<Rightarrow> bool" where
  "swarm_inv z cfg H tp s \<longleftrightarrow>
     (\<forall>v \<in> H. ep_config (sw_node s v) = cfg v \<and> topics_ok (mesh_genuine z (vouched z cfg H tp s)) (sw_node s v)) \<and>
     (\<forall>(p, q, m) \<in> sw_sent s. p \<in> H \<longrightarrow> genuine_rpc (vouched z cfg H tp s) m) \<and>
     (\<forall>(v, e) \<in> set (sw_delivered s). v \<in> H \<and> genuine_action z (vouched z cfg H tp s) (cfg v) (GenerateEvent e))"

lemma sw_update_fields [simp]:
  "sw_node (sw_update v e s) = (sw_node s)(v := e)" "sw_sent (sw_update v e s) = sw_sent s"
  "sw_delivered (sw_update v e s) = sw_delivered s" "sw_published (sw_update v e s) = sw_published s"
  by (simp_all add: sw_update_def)

lemma emit_fields [simp]:
  "sw_node (emit v a s) = sw_node s" "sw_published (emit v a s) = sw_published s"
  by (induction v a s rule: emit.induct) simp_all

lemma vouched_cong: "sw_published s' = sw_published s \<Longrightarrow> vouched z cfg H tp s' = vouched z cfg H tp s"
  by (simp add: vouched_def)

lemma vouched_frame [simp]:
  "vouched z cfg H tp (sw_update v e s) = vouched z cfg H tp s"
  "vouched z cfg H tp (emit v a s) = vouched z cfg H tp s"
  "vouched z cfg H tp (s\<lparr>sw_sent := M\<rparr>) = vouched z cfg H tp s"
  "vouched z cfg H tp (s\<lparr>sw_delivered := es\<rparr>) = vouched z cfg H tp s"
  by (rule vouched_cong, simp)+

lemma genuine_rpc_mono: "genuine_rpc G m \<Longrightarrow> G \<subseteq> G' \<Longrightarrow> genuine_rpc G' m"
  by (auto simp: genuine_rpc_def)

text \<open>Publishing only adds to what may circulate.\<close>

lemma swarm_inv_published:
  assumes "swarm_inv z cfg H tp s"
  shows "swarm_inv z cfg H tp (s\<lparr>sw_published := insert x (sw_published s)\<rparr>)"
proof -
  let ?s = "s\<lparr>sw_published := insert x (sw_published s)\<rparr>"
  have "vouched z cfg H tp s \<subseteq> vouched z cfg H tp ?s" by (auto simp: vouched_def)
  note mono = topics_genuine_mono [OF _ this] genuine_rpc_mono [OF _ this] genuine_action_mono [OF _ this]
  show ?thesis using assms mono unfolding swarm_inv_def by (auto split: prod.splits)
qed

lemma swarm_inv_update:
  assumes "swarm_inv z cfg H tp s" and "v \<in> H"
    and "ep_config e = cfg v" and "topics_ok (mesh_genuine z (vouched z cfg H tp s)) e"
  shows "swarm_inv z cfg H tp (sw_update v e s)"
  using assms by (auto simp: swarm_inv_def)

lemma swarm_inv_emit:
  assumes "swarm_inv z cfg H tp s" and "v \<in> H"
    and "\<forall>b. a = Ready b \<longrightarrow> genuine_action z (vouched z cfg H tp s) (cfg v) b"
  shows "swarm_inv z cfg H tp (emit v a s)"
  using assms by (induction v a s rule: emit.induct) (auto simp: swarm_inv_def)

lemma swarm_step_inv:
  assumes "swarm_inv z cfg H tp s" and "\<forall>v \<in> H. \<forall>p. authorizer (cfg v) tp p \<longrightarrow> p \<in> H"
    and "swarm_step w z H op s = Some s'"
  shows "swarm_inv z cfg H tp s'"
proof -
  let ?G = "vouched z cfg H tp s"
  have node: "ep_config (sw_node s v) = cfg v" "topics_ok (mesh_genuine z ?G) (sw_node s v)" if "v \<in> H" for v
    using assms(1) that by (simp_all add: swarm_inv_def)
  note genuine_step = genuine.step_ok [where z = z and G = ?G and w = w]
  show ?thesis
  proof (cases op)
    case (Sw_Publish v r now t m)
    then have v: "v \<in> H" using assms(3) by (simp split: if_splits)
    obtain res e where pub: "publish z r now t m (sw_node s v) = (res, e)" by (cases "publish z r now t m (sw_node s v)")
    define op' where "op' = Ep_Publish r now t m"
    have e: "episub_step w z op' (sw_node s v) = Inr e" by (simp add: op'_def pub)
    show ?thesis
    proof (cases res)
      case (Inl x)
      with pub have "e = sw_node s v" by (auto simp: publish_def Let_def split: option.splits sum.splits if_splits)
      with Inl pub Sw_Publish v assms(1,3) show ?thesis by (auto simp: sw_update_def)
    next
      case (Inr i)
      let ?s = "s\<lparr>sw_published := insert (v, t, i, m) (sw_published s)\<rparr>"
      have "i = gen_u64 r 0"
        using Inr pub by (auto simp: publish_def Let_def split: option.splits sum.splits if_splits)
      then have brings: "brings z (genuine_rpc (vouched z cfg H tp ?s)) (\<lambda>t i x. (t, i, x) \<in> vouched z cfg H tp ?s)
          (sw_node s v) op'"
        using v node(1) by (auto simp: op'_def vouched_def)
      have inv: "swarm_inv z cfg H tp ?s" by (rule swarm_inv_published [OF assms(1)])
      then have "topics_ok (mesh_genuine z (vouched z cfg H tp ?s)) (sw_node s v)"
        using v by (simp add: swarm_inv_def)
      from genuine.step_ok [OF this e brings] step_config [OF e] node(1) [OF v]
      have "swarm_inv z cfg H tp (sw_update v e ?s)" by (intro swarm_inv_update [OF inv v]) simp_all
      with Inr pub Sw_Publish v assms(3) show ?thesis by simp
    qed
  next
    case (Sw_Local v op')
    then obtain e where e: "v \<in> H" "is_local op'" "episub_step w z op' (sw_node s v) = Inr e" "s' = sw_update v e s"
      using assms(3) by (auto split: if_splits sum.splits)
    have "brings z (genuine_rpc ?G) (\<lambda>t i x. (t, i, x) \<in> ?G) (sw_node s v) op'"
      using e(2) by (cases op') simp_all
    from genuine_step [OF node(2) [OF e(1)] e(3) this] step_config [OF e(3)] node(1) [OF e(1)] show ?thesis
      unfolding e(4) by (intro swarm_inv_update [OF assms(1) e(1)]) simp_all
  next
    case (Sw_Receive p v c m r clk)
    then obtain e where e: "v \<in> H" "(p, v, m) \<in> sw_sent s"
        "inject_event w z r clk p c m (sw_node s v) = Inr e" "s' = sw_update v e s"
      using assms(3) by (auto split: if_splits sum.splits)
    have "genuine_rpc ?G m" if "allow (cfg v) (rpc_topic m) p"
    proof (cases "p \<in> H")
      case True
      with e(2) assms(1) show ?thesis by (auto simp: swarm_inv_def)
    next
      case False
      with that assms(2) e(1) have "rpc_topic m \<noteq> tp" by (auto simp: allow_def)
      then show ?thesis by (simp add: genuine_rpc_def vouched_def)
    qed
    with node(1) [OF e(1)] have "allow (ep_config (sw_node s v)) (rpc_topic m) p \<longrightarrow> genuine_rpc ?G m" by simp
    from genuine.event_ok [OF node(2) [OF e(1)] e(3) this] event_config [OF e(3)] node(1) [OF e(1)] show ?thesis
      unfolding e(4) by (intro swarm_inv_update [OF assms(1) e(1)]) simp_all
  next
    case (Sw_Poll v rs clk params)
    then obtain polled e where e: "v \<in> H" "poll_episub w rs clk params (sw_node s v) = Inr (polled, e)"
        "s' = emit v polled (sw_update v e s)"
      using assms(3) by (auto split: if_splits sum.splits)
    note polled = genuine.poll_episub_ok [OF node(2) [OF e(1)] e(2)]
    with poll_config [OF e(2)] node(1) [OF e(1)] have "swarm_inv z cfg H tp (sw_update v e s)"
      by (intro swarm_inv_update [OF assms(1) e(1)]) simp_all
    then show ?thesis unfolding e(3)
      by (rule swarm_inv_emit) (use e(1) polled node(1) [OF e(1)] in simp_all)
  next
    case (Sw_Outsider p q m)
    with assms(1,3) show ?thesis by (auto simp: swarm_inv_def split: if_splits)
  qed
qed

lemma swarm_run_inv:
  assumes "\<forall>v \<in> H. \<forall>p. authorizer (cfg v) tp p \<longrightarrow> p \<in> H"
  shows "swarm_inv z cfg H tp s \<Longrightarrow> swarm_run w z H ops s = Some s' \<Longrightarrow> swarm_inv z cfg H tp s'"
proof (induction ops arbitrary: s)
  case (Cons op ops)
  then show ?case using swarm_step_inv [OF Cons.prems(1) assms] by (auto split: option.splits)
qed simp

lemma swarm_start_inv: "swarm_inv z cfg H tp (swarm_start cfg)"
  by (simp add: swarm_inv_def swarm_start_def topics_ok_def new_episub_def)

subsection \<open>Every step is an operation of one node\<close>

text \<open>A node takes its identity from the poll that learns its addresses, once.\<close>

lemma request_join_local: "request_join_for_starving_topics w p s = Inr s' \<Longrightarrow> ep_local_node s' = ep_local_node s"
  using request_join_cases [of w p s s'] by auto

lemma join_early_local: "join_early w ps s = Inr s' \<Longrightarrow> ep_local_node s' = ep_local_node s"
proof (induction ps arbitrary: s)
  case (Cons p ps)
  then obtain s1 where "request_join_for_starving_topics w p s = Inr s1" "join_early w ps s1 = Inr s'"
    by (auto simp: on_ok_Inr_iff)
  with Cons.IH request_join_local show ?case by metis
qed simp

lemma poll_local_node:
  assumes "poll_episub w rs clk params s = Inr (a, s')" and "ep_local_node s' = Some n"
  shows "ep_local_node s = Some n \<or> peer_id n = pp_local_peer_id params"
proof -
  from assms(1) obtain s1 where s1: "update_local_node_info w clk params s = Inr s1"
    by (auto simp: poll_episub_def on_ok_Inr_iff)
  with assms have "ep_local_node s1 = Some n"
    by (cases "ep_out_events s1") (auto simp: poll_episub_def on_ok_Inr_iff)
  with s1 show ?thesis
    by (auto simp: update_local_node_info_def Let_def dest!: join_early_local split: if_splits)
qed

lemma step_local_node:
  assumes "episub_step w z op s = Inr s'" and "ep_local_node s' = Some n"
  shows "(\<exists>n'. ep_local_node s = Some n' \<and> peer_id n = peer_id n') \<or>
    (\<exists>rs clk params. op = Ep_Poll rs clk params \<and> peer_id n = pp_local_peer_id params)"
proof (cases op)
  case (Ep_Poll rs clk params)
  with assms poll_local_node show ?thesis by (fastforce simp: on_ok_Inr_iff)
next
  case (Ep_Established p c e)
  with assms show ?thesis
    by (auto simp: inject_connection_established_def Let_def dest!: request_join_local
        split: if_splits connected_point.splits)
next
  case (Ep_Event r clk p c m)
  then have "inject_event w z r clk p c m s = Inr s'" using assms(1) by simp
  then have "ep_local_node s' = ep_local_node s"
    by (cases rule: inject_event_cases) (auto simp: update_topic_def split: sum.splits)
  with assms(2) show ?thesis by simp
qed (use assms in \<open>auto simp: subscribe_def unsubscribe_def publish_def update_topic_def Let_def
      inject_new_listen_addr_def inject_expired_listen_addr_def inject_dial_failure_def
      inject_connection_closed_def split: option.splits sum.splits if_splits\<close>)

lemma swarm_step_node:
  assumes "swarm_step w z H op s = Some s'"
  obtains (node) v eop e where "v \<in> H" "episub_step w z eop (sw_node s v) = Inr e" "sw_node s' = (sw_node s)(v := e)"
      "\<And>r clk p c m. eop = Ep_Event r clk p c m \<Longrightarrow> (p, v, m) \<in> sw_sent s"
      "\<And>rs clk params. eop = Ep_Poll rs clk params \<Longrightarrow> pp_local_peer_id params = v"
      "\<And>p q m. (p, q, m) \<in> sw_sent s' \<Longrightarrow> (p, q, m) \<in> sw_sent s \<or>
         p = v \<and> (\<exists>rs clk params. poll_episub w rs clk params (sw_node s v) = Inr (Ready (NotifyHandler q m), e))"
    | (outsider) p q m where "p \<notin> H" "s' = s\<lparr>sw_sent := insert (p, q, m) (sw_sent s)\<rparr>"
proof (cases op)
  case (Sw_Publish v r now t m)
  with assms obtain e where e: "v \<in> H" "snd (publish z r now t m (sw_node s v)) = e"
      "sw_node s' = (sw_node s)(v := e)" "sw_sent s' = sw_sent s"
    by (auto split: if_splits prod.splits sum.splits)
  with node [of v "Ep_Publish r now t m" e] show thesis by simp
next
  case (Sw_Local v eop)
  with assms obtain e where e: "v \<in> H" "is_local eop" "episub_step w z eop (sw_node s v) = Inr e" "s' = sw_update v e s"
    by (auto split: if_splits sum.splits)
  from node [of v eop e] e show thesis by (cases eop) auto
next
  case (Sw_Receive p v c m r clk)
  with assms obtain e where "v \<in> H" "(p, v, m) \<in> sw_sent s"
      "inject_event w z r clk p c m (sw_node s v) = Inr e" "s' = sw_update v e s"
    by (auto split: if_splits sum.splits)
  with node [of v "Ep_Event r clk p c m" e] show thesis by auto
next
  case (Sw_Poll v rs clk params)
  with assms obtain a e where e: "v \<in> H" "pp_local_peer_id params = v"
      "poll_episub w rs clk params (sw_node s v) = Inr (a, e)" "s' = emit v a (sw_update v e s)"
    by (auto split: if_splits sum.splits)
  have "(p, q, m) \<in> sw_sent s' \<Longrightarrow> (p, q, m) \<in> sw_sent s \<or> p = v \<and> a = Ready (NotifyHandler q m)" for p q m
    unfolding e(4) by (induction v a "sw_update v e s" rule: emit.induct) auto
  with e(3) have "(p, q, m) \<in> sw_sent s' \<Longrightarrow> (p, q, m) \<in> sw_sent s \<or>
      p = v \<and> (\<exists>rs clk params. poll_episub w rs clk params (sw_node s v) = Inr (Ready (NotifyHandler q m), e))"
    for p q m by blast
  from node [of v "Ep_Poll rs clk params" e, OF _ _ _ _ _ this] e show thesis by simp
next
  case (Sw_Outsider p q m)
  with assms outsider show thesis by (auto split: if_splits)
qed

end
