(* ===== verification/Swarm_Properties.thy ===== *)
theory Swarm_Properties
  imports Swarm
begin

section \<open>What holds of a whole network\<close>

text \<open>
  The properties of the swarm: only members publish, no member's message stops another, no member bans
  another. The concrete run for their witnesses is evaluated by the kernel.
\<close>

subsection \<open>A concrete run\<close>

text \<open>
  Two members subscribe, one dials and joins the other, the other takes it in and publishes; an outsider
  writes to both. The configuration is small in every number.
\<close>

definition duo :: "peer_id set" where "duo = set [PeerId [1], PeerId [2]]"

definition duo_config :: "peer_id \<Rightarrow> config" where
  "duo_config v =
     \<lparr>network_size = 4, active_view_factor = 0, passive_view_factor = 1, max_transmit_size = 9,
      shuffle_interval = 9, shuffle_probability = 1, lazy_push_window = 2, history_window = 9,
      tick_frequency = 1, optimize_sender_tree = True, hop_optimization_factor = 4,
      enable_compression = True, compression_level = 0, authorizer = (\<lambda>t p. p \<in> duo)\<rparr>"

definition duo_poll :: "u8 \<Rightarrow> swarm_op" where
  "duo_poll b = Sw_Poll (PeerId [b]) (\<lambda>_. first_entropy) (\<lambda>_. 0) (sample_params\<lparr>pp_local_peer_id := PeerId [b]\<rparr>)"

definition duo_receive :: "u8 \<Rightarrow> u8 \<Rightarrow> rpc_action \<Rightarrow> swarm_op" where
  "duo_receive a b act = Sw_Receive (PeerId [a]) (PeerId [b]) 0 (rpc_of ''t'' act) first_entropy (\<lambda>_. 0)"

definition duo_ops :: "swarm_op list" where
  "duo_ops =
     [Sw_Local (PeerId [1]) (Ep_Subscribe (\<lambda>_. 0) ''t''), Sw_Local (PeerId [2]) (Ep_Subscribe (\<lambda>_. 0) ''t''),
      duo_poll 1, duo_poll 2,
      Sw_Local (PeerId [1]) (Ep_Established (PeerId [2]) 0 (Dialer public_addr)), duo_poll 1,
      duo_receive 1 2 (Join 2 \<lparr>wp_peer_id = [1], wp_addresses = [[]]\<rparr>), duo_poll 2, duo_poll 2, duo_poll 2,
      Sw_Outsider (PeerId [6]) (PeerId [1]) (rpc_of ''t'' (Message 5 1 [1])),
      duo_receive 6 1 (Message 5 1 [1]),
      Sw_Publish (PeerId [2]) first_entropy 0 ''t'' [7, 8], duo_poll 2, duo_poll 2,
      duo_receive 2 1 (Message 0 1 [40, 7, 8]), duo_poll 1, duo_poll 1]"

lemma duo_run:
  "map_option sw_delivered (swarm_run full_wire tag_zstd duo duo_ops (swarm_start duo_config)) =
     Some [(PeerId [2], PeerAdded (PeerId [1])), (PeerId [1], EvMessage ''t'' 0 [7, 8])]"
  by code_simp

lemma duo_forged:
  "map_option (\<lambda>s. (PeerId [6], PeerId [1], rpc_of ''t'' (Message 5 1 [1])) \<in> sw_sent s)
     (swarm_run full_wire tag_zstd duo duo_ops (swarm_start duo_config)) = Some True"
  by code_simp

subsection \<open>Integrity\<close>



subsection \<open>No panic\<close>



subsection \<open>No ban\<close>

definition swarm_typed :: "wire_codec \<Rightarrow> zstd \<Rightarrow> peer_id set \<Rightarrow> swarm \<Rightarrow> bool" where
  "swarm_typed w z H s \<longleftrightarrow>
     (\<forall>v \<in> H. episub_reachable w z (sw_node s v) \<and>
        (\<forall>n. ep_local_node (sw_node s v) = Some n \<longrightarrow> peer_id n = v) \<and>
        set (ep_banned_peers (sw_node s v)) \<inter> H = {}) \<and>
     (\<forall>(p, q, m) \<in> sw_sent s. p \<in> H \<longrightarrow> typed_rpc w p (rpc_topic m) m)"

lemma event_bans_sender:
  "inject_event w z r clk p c m s = Inr s' \<Longrightarrow> set (ep_banned_peers s') \<subseteq> insert p (set (ep_banned_peers s))"
  by (erule inject_event_cases) (auto simp: update_topic_def split: sum.splits)

lemma swarm_typed_step:
  assumes "swarm_typed w z H s" and "\<forall>p. peer_id_from_bytes w (peer_id_to_bytes w p) = Some p"
    and "swarm_step w z H op s = Some s'"
  shows "swarm_typed w z H s'"
  using assms(3)
proof (cases rule: swarm_step_node)
  case (node v eop e)
  have old: "episub_reachable w z (sw_node s v)" "\<And>n. ep_local_node (sw_node s v) = Some n \<Longrightarrow> peer_id n = v"
    "set (ep_banned_peers (sw_node s v)) \<inter> H = {}"
    using assms(1) node(1) by (auto simp: swarm_typed_def)
  have reach: "episub_reachable w z e" by (rule episub_next [OF old(1) node(2)])
  have me: "peer_id n = v" if "ep_local_node e = Some n" for n
    using step_local_node [OF node(2) that] old(2) node(5) by blast
  have bans: "set (ep_banned_peers e) \<inter> H = {}"
  proof (cases "is_Ep_Event eop")
    case True
    then obtain r clk p c m where eop: "eop = Ep_Event r clk p c m" by (auto simp: is_Ep_Event_def)
    then have event: "inject_event w z r clk p c m (sw_node s v) = Inr e" using node(2) by simp
    show ?thesis
    proof (cases "p \<in> H")
      case True
      with assms(1) node(4) [OF eop] have "typed_rpc w p (rpc_topic m) m" by (auto simp: swarm_typed_def)
      from typed_event_bans [OF this assms(2) event] old(3) show ?thesis by simp
    next
      case False
      with event_bans_sender [OF event] old(3) show ?thesis by blast
    qed
  next
    case False
    from other_step_banned [OF node(2) False] old(3) show ?thesis by simp
  qed
  have "typed_rpc w p (rpc_topic m) m" if "(p, q, m) \<in> sw_sent s'" "p \<in> H" for p q m
    using node(6) [OF that(1)]
  proof (elim disjE conjE exE)
    assume "(p, q, m) \<in> sw_sent s"
    with assms(1) that(2) show ?thesis by (auto simp: swarm_typed_def)
  next
    fix rs clk params
    assume "p = v" "poll_episub w rs clk params (sw_node s v) = Inr (Ready (NotifyHandler q m), e)"
    with poll_sends_typed_as [OF old(1) _ me] show ?thesis by blast
  qed
  with assms(1) reach me bans node(3) show ?thesis by (auto simp: swarm_typed_def)
next
  case (outsider p q m)
  with assms(1) show ?thesis by (auto simp: swarm_typed_def)
qed

lemma swarm_run_typed:
  assumes "\<forall>p. peer_id_from_bytes w (peer_id_to_bytes w p) = Some p"
  shows "swarm_typed w z H s \<Longrightarrow> swarm_run w z H ops s = Some s' \<Longrightarrow> swarm_typed w z H s'"
proof (induction ops arbitrary: s)
  case (Cons op ops)
  then show ?case using swarm_typed_step [OF Cons.prems(1) assms] by (auto split: option.splits)
qed simp

lemma swarm_start_typed: "swarm_typed w z H (swarm_start cfg)"
  by (auto simp: swarm_typed_def swarm_start_def new_episub_def intro: episub_init [unfolded new_episub_def])



end
