(* ===== verification/Join_Handshake.thy ===== *)
theory Join_Handshake
  imports Topic_Properties
begin

section \<open>Two nodes join\<close>

text \<open>
  The exchange by which two nodes become neighbours in a topic: the \<open>JOIN\<close> one of them sends when it has
  dialed the other, and the \<open>NEIGHBOR\<close> it is answered with, each taken from the sender's queue and injected
  at its receiver.
\<close>

lemma add_active_new:
  assumes "peer_id p \<noteq> peer_id (hv_local_node s)" and "\<not> is_active s (peer_id p)"
  shows "hv_active (add_node_to_active_view w p i s) = hs_insert peer_id p (hv_active s)"
    and "hv_out_events (add_node_to_active_view w p i s) = hv_out_events s @
      (if i then [dial_of s p False, hv_notify s (peer_id p) (Neighbor (into_wire w (hv_local_node s)) priority_low)]
       else []) @ [GenerateEvent (PeerAdded (peer_id p))]"
    and "hv_topic (add_node_to_active_view w p i s) = hv_topic s"
  using assms by (auto simp: add_node_to_active_view_def is_active_def hs_contains_iff hs_insert_def Let_def
      hv_push_def dial_of_def hv_notify_def)

lemma inactive_other: "\<not> is_active s p \<Longrightarrow> x \<in> set (hv_active s) \<Longrightarrow> peer_id x \<noteq> p"
  by (force simp: is_active_def hs_contains_def)

lemma is_active_insert [simp]: "hv_active t = hs_insert peer_id p xs \<Longrightarrow> is_active t (peer_id p)"
  by (auto simp: is_active_def hs_contains_iff hs_keys_def hs_insert_def)

lemma join_accepted:
  assumes "peer_id p \<noteq> peer_id (hv_local_node s)" and "\<not> is_active s (peer_id p)" and "\<not> overconnected s"
  shows "hv_active (inject_join w r sender p ttl s) = hs_insert peer_id p (hv_active s)"
    and "set (hv_out_events (inject_join w r sender p ttl s)) \<supseteq>
      {GenerateEvent (PeerAdded (peer_id p)),
       hv_notify s (peer_id p) (Neighbor (into_wire w (hv_local_node s)) priority_low)} \<union>
      {hv_notify s (peer_id x) (ForwardJoin ttl (into_wire w p)) |x. x \<in> set (hv_active s) \<and> peer_id x \<noteq> sender}"
proof -
  let ?t = "add_node_to_active_view w p True s"
  have join: "inject_join w r sender p ttl s =
      ?t\<lparr>hv_out_events := hv_out_events ?t @ forward_joins w p sender ttl ?t\<rparr>"
    using assms by (simp add: inject_join_def is_active_def hs_contains_iff Let_def)
  have "hv_notify s (peer_id x) (ForwardJoin ttl (into_wire w p)) \<in> set (forward_joins w p sender ttl ?t)"
    if "x \<in> set (hv_active s)" "peer_id x \<noteq> sender" for x
  proof -
    have "peer_id x \<noteq> peer_id p" by (rule inactive_other [OF assms(2) that(1)])
    with that add_active_new(1,3) [OF assms(1,2), of w True] show ?thesis
      by (auto simp: forward_joins_def hv_notify_def hs_insert_def)
  qed
  then show "hv_active (inject_join w r sender p ttl s) = hs_insert peer_id p (hv_active s)"
    "set (hv_out_events (inject_join w r sender p ttl s)) \<supseteq>
      {GenerateEvent (PeerAdded (peer_id p)),
       hv_notify s (peer_id p) (Neighbor (into_wire w (hv_local_node s)) priority_low)} \<union>
      {hv_notify s (peer_id x) (ForwardJoin ttl (into_wire w p)) |x. x \<in> set (hv_active s) \<and> peer_id x \<noteq> sender}"
    using add_active_new [OF assms(1,2), of w True] by (auto simp: join)
qed

lemma neighbor_accepted:
  assumes "peer_id p \<noteq> peer_id (hv_local_node s)" and "\<not> is_active s (peer_id p)" and "\<not> overconnected s"
  shows "hv_active (inject_neighbor w r p prio s) = hs_insert peer_id p (hv_active s)"
    and "GenerateEvent (PeerAdded (peer_id p)) \<in> set (hv_out_events (inject_neighbor w r p prio s))"
  using assms add_active_new [OF assms(1,2), of w False] by (simp_all add: inject_neighbor_def)



end
