(* ===== verification/Primitives.thy ===== *)
theory Primitives
  imports Wire
begin

section \<open>Keys, messages and subscriptions\<close>

text \<open>
  \<open>src/src/primitives/\<close>: the keys that identify a node, the message that two end parties relay, and the
  hash that identifies it. Base 58, ed25519, SHA-3 and multihashes are crates; each is a record of
  functions that the definitions take.
\<close>

subsection \<open>Base 58\<close>

datatype base58_error = BufferTooSmall | InvalidCharacter

text \<open>
  \<open>bs58::encode(..).into_string()\<close>, \<open>decode(..).into_vec()\<close> and \<open>decode(..).into(buffer)\<close>, which
  returns the buffer after the call.
\<close>

record base58 =
  b58_encode :: "bytes \<Rightarrow> string"
  b58_decode :: "string \<Rightarrow> base58_error + bytes"
  b58_decode_into :: "string \<Rightarrow> bytes \<Rightarrow> base58_error + bytes"

text \<open>
  What the crate documents: decoding undoes encoding; decoding into a buffer writes from its start and
  leaves the rest, or fails when the buffer is too small; an encoding of 32 bytes has at least one
  character a byte for zeros and never more than 44.
\<close>

definition base58_ok :: "base58 \<Rightarrow> bool" where
  "base58_ok b \<longleftrightarrow>
     (\<forall>x. b58_decode b (b58_encode b x) = Inr x) \<and>
     (\<forall>x buf. b58_decode_into b (b58_encode b x) buf =
        (if length x \<le> length buf then Inr (x @ drop (length x) buf) else Inl BufferTooSmall)) \<and>
     (\<forall>x. length x = 32 \<longrightarrow> 32 \<le> length (b58_encode b x) \<and> length (b58_encode b x) \<le> 44)"

subsection \<open>Public keys\<close>

datatype pubkey = Pubkey bytes

definition pubkey_wf :: "pubkey \<Rightarrow> bool" where
  "pubkey_wf k \<longleftrightarrow> (case k of Pubkey x \<Rightarrow> length x = 32)"

text \<open>\<open>AsRef<[u8]>\<close>, \<open>Display\<close>, \<open>Debug\<close> and \<open>From<Pubkey> for String\<close>.\<close>

fun pubkey_as_ref :: "pubkey \<Rightarrow> bytes" where
  "pubkey_as_ref (Pubkey x) = x"

fun pubkey_display :: "base58 \<Rightarrow> pubkey \<Rightarrow> string" where
  "pubkey_display b (Pubkey x) = b58_encode b x"

fun pubkey_debug :: "base58 \<Rightarrow> pubkey \<Rightarrow> string" where
  "pubkey_debug b (Pubkey x) = ''Pubkey('' @ b58_encode b x @ '')''"

fun pubkey_into_string :: "base58 \<Rightarrow> pubkey \<Rightarrow> string" where
  "pubkey_into_string b (Pubkey x) = b58_encode b x"

text \<open>From a key of the ed25519 crate, which is its 32 bytes.\<close>

definition pubkey_of_ed25519 :: "bytes \<Rightarrow> pubkey" where
  "pubkey_of_ed25519 p = Pubkey p"

definition pubkey_from_str :: "base58 \<Rightarrow> string \<Rightarrow> base58_error + pubkey" where
  "pubkey_from_str b s =
     (case b58_decode_into b s (replicate 32 0) of Inl e \<Rightarrow> Inl e | Inr bytes \<Rightarrow> Inr (Pubkey bytes))"

definition pubkey_try_from :: "base58 \<Rightarrow> string \<Rightarrow> base58_error + pubkey" where
  "pubkey_try_from b value = pubkey_from_str b value"

text \<open>
  From a libp2p peer id, whose multihash digest is a function of the libp2p crate. The first four bytes
  are skipped; a digest shorter than that, or with another number of bytes left, panics.
\<close>

definition pubkey_of_peer :: "(peer_id \<Rightarrow> bytes) \<Rightarrow> peer_id \<Rightarrow> panic + pubkey" where
  "pubkey_of_peer digest p =
     (if length (digest p) < 4 then Inl Slice_Range
      else if length (drop 4 (digest p)) = 32 then Inr (Pubkey (drop 4 (digest p)))
      else Inl Unwrap_Err)"

definition pubkey_eq_peer :: "(peer_id \<Rightarrow> bytes) \<Rightarrow> pubkey \<Rightarrow> peer_id \<Rightarrow> panic + bool" where
  "pubkey_eq_peer digest k p =
     (if length (digest p) < 4 then Inl Slice_Range
      else Inr (pubkey_as_ref k = drop 4 (digest p)))"

definition peer_eq_pubkey :: "(peer_id \<Rightarrow> bytes) \<Rightarrow> peer_id \<Rightarrow> pubkey \<Rightarrow> panic + bool" where
  "peer_eq_pubkey digest p k =
     (if length (digest p) < 4 then Inl Slice_Range
      else Inr (pubkey_as_ref k = drop 4 (digest p)))"

text \<open>
  \<open>Deserialize\<close>: a string goes through \<open>FromStr\<close>, its error as text. The serializer writes the base
  58 string.
\<close>

definition pubkey_deserialize_str :: "base58 \<Rightarrow> (base58_error \<Rightarrow> string) \<Rightarrow> string \<Rightarrow> string + pubkey" where
  "pubkey_deserialize_str b show_error s =
     (case pubkey_from_str b s of Inl e \<Rightarrow> Inl (show_error e) | Inr k \<Rightarrow> Inr k)"

text \<open>
  What a deserializer shows the visitor when it is asked for a string: a sequence, or a string or its own error.
  The visitor deserializes the key again from a sequence, through \<open>SeqAccessDeserializer\<close>; what that
  deserializer shows for a sequence is the argument \<open>seq_access\<close>, since it is serde's. \<open>None\<close> is
  a recursion that does not end.
\<close>

datatype visit = is_seq: Visit_Seq (seq_of: bytes) | Visit_Text (text_of: "string + string")

partial_function (option) pubkey_deserialize ::
  "base58 \<Rightarrow> (base58_error \<Rightarrow> string) \<Rightarrow> (bytes \<Rightarrow> visit) \<Rightarrow> visit \<Rightarrow> (string + pubkey) option" where
  "pubkey_deserialize b show_error seq_access v =
     (if is_seq v then pubkey_deserialize b show_error seq_access (seq_access (seq_of v))
      else Some (on_ok (text_of v) (pubkey_deserialize_str b show_error)))"

definition pubkey_serialize :: "base58 \<Rightarrow> pubkey \<Rightarrow> string" where
  "pubkey_serialize b k = b58_encode b (pubkey_as_ref k)"

subsection \<open>Key pairs\<close>

record keypair =
  kp_secret :: bytes
  kp_public :: bytes

text \<open>
  \<open>SecretKey::from_bytes\<close>, the public key of a secret key, and \<open>Keypair::from_bytes\<close> of the 64 bytes
  \<open>Keypair::to_bytes\<close> writes.
\<close>

record ed25519 =
  ed_secret_from_bytes :: "bytes \<Rightarrow> string + bytes"
  ed_public :: "bytes \<Rightarrow> bytes"
  ed_keypair_from_bytes :: "bytes \<Rightarrow> string + keypair"

definition ed25519_ok :: "ed25519 \<Rightarrow> bool" where
  "ed25519_ok e \<longleftrightarrow>
     (\<forall>x. length x = 32 \<longrightarrow> ed_secret_from_bytes e x = Inr x) \<and>
     (\<forall>x. length x \<noteq> 32 \<longrightarrow> (\<exists>m. ed_secret_from_bytes e x = Inl m)) \<and>
     (\<forall>x. length (ed_public e x) = 32) \<and>
     (\<forall>x. length x = 32 \<longrightarrow>
        ed_keypair_from_bytes e (x @ ed_public e x) = Inr \<lparr>kp_secret = x, kp_public = ed_public e x\<rparr>)"

datatype keypair_error = Base58ParseError base58_error | Ed25519Error string

definition keypair_try_from :: "ed25519 \<Rightarrow> bytes \<Rightarrow> keypair_error + keypair" where
  "keypair_try_from e value =
     (case ed_secret_from_bytes e value of
        Inl m \<Rightarrow> Inl (Ed25519Error m)
      | Inr secret \<Rightarrow> Inr \<lparr>kp_secret = secret, kp_public = ed_public e secret\<rparr>)"

text \<open>\<open>Keypair::unique\<close>; the 32 bytes the random generator fills the array with are an argument.\<close>

definition keypair_unique :: "ed25519 \<Rightarrow> bytes \<Rightarrow> panic + keypair" where
  "keypair_unique e random =
     (case keypair_try_from e random of Inl _ \<Rightarrow> Inl Unwrap_Err | Inr k \<Rightarrow> Inr k)"

text \<open>\<open>From\<close> and \<open>Deref\<close> to and from the pair of the ed25519 crate, which the type wraps.\<close>

definition keypair_of_ed25519 :: "keypair \<Rightarrow> keypair" where
  "keypair_of_ed25519 k = k"

definition keypair_deref :: "keypair \<Rightarrow> keypair" where
  "keypair_deref k = k"

definition keypair_secret :: "keypair \<Rightarrow> bytes" where
  "keypair_secret k = kp_secret k"

definition keypair_public :: "keypair \<Rightarrow> pubkey" where
  "keypair_public k = pubkey_of_ed25519 (kp_public k)"

definition keypair_clone :: "ed25519 \<Rightarrow> keypair \<Rightarrow> panic + keypair" where
  "keypair_clone e k =
     (case ed_keypair_from_bytes e (kp_secret k @ kp_public k) of Inl _ \<Rightarrow> Inl Unwrap_Err | Inr k \<Rightarrow> Inr k)"

definition keypair_into_ed25519 :: "ed25519 \<Rightarrow> keypair \<Rightarrow> panic + keypair" where
  "keypair_into_ed25519 e k =
     (case ed_keypair_from_bytes e (kp_secret k @ kp_public k) of Inl _ \<Rightarrow> Inl Unwrap_Err | Inr k \<Rightarrow> Inr k)"

text \<open>
  \<open>Debug\<close>: \<open>replace_range(4..=len - 5, "...")\<close> of the base 58 secret, which leaves its first and its
  last four characters. The subtraction is on \<open>usize\<close>, and the range must lie in the string.
\<close>

definition redact :: "string \<Rightarrow> panic + string" where
  "redact secret =
     (if length secret < 5 \<or> length secret - 5 + 1 < 4 then Inl Slice_Range
      else Inr (take 4 secret @ ''...'' @ drop (length secret - 5 + 1) secret))"

definition keypair_debug :: "base58 \<Rightarrow> keypair \<Rightarrow> panic + string \<times> string" where
  "keypair_debug b k =
     on_ok (redact (b58_encode b (kp_secret k))) (\<lambda>secret. Inr (secret, b58_encode b (kp_public k)))"

definition keypair_display :: "base58 \<Rightarrow> keypair \<Rightarrow> string" where
  "keypair_display b k = b58_encode b (kp_public k)"

definition keypair_from_str :: "base58 \<Rightarrow> ed25519 \<Rightarrow> string \<Rightarrow> keypair_error + keypair" where
  "keypair_from_str b e value =
     (case b58_decode_into b value (replicate 32 0) of
        Inl m \<Rightarrow> Inl (Base58ParseError m)
      | Inr secret \<Rightarrow>
          (case ed_secret_from_bytes e secret of
             Inl m \<Rightarrow> Inl (Ed25519Error m)
           | Inr secret \<Rightarrow> Inr \<lparr>kp_secret = secret, kp_public = ed_public e secret\<rparr>))"

subsection \<open>Messages\<close>

text \<open>A multihash: a code and a digest of at most 64 bytes.\<close>

record multihash =
  mh_code :: u64
  mh_digest :: bytes

type_synonym subscription = multihash

record message =
  ms_topic :: multihash
  ms_content :: bytes
  ms_hashcache :: "multihash option"

definition message_new :: "multihash \<Rightarrow> bytes \<Rightarrow> message" where
  "message_new topic content = \<lparr>ms_topic = topic, ms_content = content, ms_hashcache = None\<rparr>"

definition sha3_256_code :: u64 where "sha3_256_code = 0x16"

text \<open>
  \<open>multihash\<close> of a message: the hash of the topic's bytes and the content, computed once and then
  read from the cache. \<open>Code::wrap\<close> refuses a digest above 64 bytes.
\<close>

record hasher =
  sha3_256 :: "bytes \<Rightarrow> bytes"
  mh_to_bytes :: "multihash \<Rightarrow> bytes"

definition message_multihash :: "hasher \<Rightarrow> message \<Rightarrow> panic + multihash \<times> message" where
  "message_multihash h m =
     (case ms_hashcache m of
        Some x \<Rightarrow> Inr (x, m)
      | None \<Rightarrow>
          let digest = sha3_256 h (mh_to_bytes h (ms_topic m) @ ms_content m);
              x = \<lparr>mh_code = sha3_256_code, mh_digest = digest\<rparr>
          in if 64 < length digest then Inl Unwrap_Err else Inr (x, m\<lparr>ms_hashcache := Some x\<rparr>))"

text \<open>\<open>Debug\<close>: the fields \<open>topic\<close>, \<open>content\<close> and \<open>hash\<close>, the last by \<open>multihash\<close>, which fills the cache.\<close>

definition message_debug :: "hasher \<Rightarrow> message \<Rightarrow> panic + (multihash \<times> bytes \<times> multihash) \<times> message" where
  "message_debug h m =
     on_ok (message_multihash h m) (\<lambda>(x, m'). Inr ((ms_topic m', ms_content m', x), m'))"

end
