(* ===== verification/Network.thy ===== *)
theory Network
  imports Behaviour_Reachable Primitives
begin

section \<open>The network task\<close>

text \<open>
  \<open>src/src/network/mod.rs\<close>: a task that owns the swarm, and with it the behaviour, and turns
  commands into published messages and delivered messages into events. Commands and events go through
  two unbounded channels. The swarm is libp2p: it drives the behaviour, and what the code takes from it is the
  behaviour's events; \<open>dial\<close> calls are recorded. The serializer is bincode.
\<close>

datatype network_event =
    MessageReceived message
  | MessageAcknowledged multihash
  | SubscriptionReceived subscription

datatype network_command =
    Connect multiaddr
  | GossipMessage message
  | GossipACK multihash
  | GossipSubscription subscription

text \<open>
  \<open>bincode::serialize\<close> and \<open>deserialize\<close> of a message and of a multihash, and
  \<open>Multihash::from_bytes\<close>, which reads the binary format of multihashes.
\<close>

record wire_format =
  bincode_message :: "message \<Rightarrow> bytes option"
  bincode_message_from :: "bytes \<Rightarrow> string + message"
  bincode_hash :: "multihash \<Rightarrow> bytes option"
  bincode_hash_from :: "bytes \<Rightarrow> string + multihash"
  hash_from_bytes :: "bytes \<Rightarrow> string + multihash"

record network =
  nw_id :: string
  nw_behaviour :: episub
  nw_dialed :: "multiaddr list"
  nw_in :: "network_event list"
  nw_out :: "network_command list"
  nw_alive :: bool

text \<open>\<open>format!("/{}/message", network_id)\<close> and its two siblings.\<close>

definition topic_name :: "string \<Rightarrow> string \<Rightarrow> string" where
  "topic_name network_id kind = ''/'' @ network_id @ ''/'' @ kind"

definition message_topic :: "string \<Rightarrow> string" where "message_topic i = topic_name i ''message''"
definition subscribe_topic :: "string \<Rightarrow> string" where "subscribe_topic i = topic_name i ''subscribe''"
definition ack_topic :: "string \<Rightarrow> string" where "ack_topic i = topic_name i ''ack''"

definition network_config :: config where
  "network_config = default_config
     \<lparr>authorizer := (\<lambda>_ _. True), active_view_factor := 4, network_size := 20,
      max_transmit_size := 64 * 1024, history_window := secs 30, lazy_push_window := secs 5,
      shuffle_probability := 3 / 10\<rparr>"

definition bootstrap_commands :: "multiaddr list \<Rightarrow> network_command list" where
  "bootstrap_commands bootstrap = map Connect bootstrap"

text \<open>\<open>Network::new\<close>: three subscriptions, and a connect command for each bootstrap address.\<close>

definition network_new :: "clock \<Rightarrow> string \<Rightarrow> multiaddr list \<Rightarrow> network" where
  "network_new clk network_id bootstrap =
     (let s = new_episub network_config;
          s = snd (subscribe clk (message_topic network_id) s);
          s = snd (subscribe clk (subscribe_topic network_id) s);
          s = snd (subscribe clk (ack_topic network_id) s)
      in \<lparr>nw_id = network_id, nw_behaviour = s, nw_dialed = [], nw_in = [],
          nw_out = bootstrap_commands bootstrap, nw_alive = True\<rparr>)"

subsection \<open>Events of the behaviour\<close>

text \<open>What is sent to the main loop for an event; a payload that does not decode is logged.\<close>

definition swarm_event :: "wire_format \<Rightarrow> string \<Rightarrow> episub_event \<Rightarrow> network_event option" where
  "swarm_event f network_id event =
     (case event of
        EvMessage topic i payload \<Rightarrow>
          if topic = message_topic network_id then
            (case bincode_message_from f payload of
               Inr msg \<Rightarrow> Some (MessageReceived msg) | Inl _ \<Rightarrow> None)
          else if topic = subscribe_topic network_id then
            (case bincode_hash_from f payload of
               Inr sub \<Rightarrow> Some (SubscriptionReceived sub) | Inl _ \<Rightarrow> None)
          else if topic = ack_topic network_id then
            (case hash_from_bytes f payload of
               Inr hash \<Rightarrow> Some (MessageAcknowledged hash) | Inl _ \<Rightarrow> None)
          else None
      | _ \<Rightarrow> None)"

definition handle_swarm_event :: "wire_format \<Rightarrow> episub_event \<Rightarrow> network \<Rightarrow> network" where
  "handle_swarm_event f event n =
     (case swarm_event f (nw_id n) event of
        Some e \<Rightarrow> n\<lparr>nw_in := nw_in n @ [e]\<rparr>
      | None \<Rightarrow> n)"

subsection \<open>Commands\<close>

text \<open>\<open>publish(topic, serialize(..).expect(..)).unwrap()\<close>.\<close>

definition publish_or_panic ::
  "zstd \<Rightarrow> entropy \<Rightarrow> instant \<Rightarrow> string \<Rightarrow> bytes option \<Rightarrow> network \<Rightarrow> panic + network" where
  "publish_or_panic z r now topic serialized n =
     (case serialized of
        None \<Rightarrow> Inl Expect_Failed
      | Some payload \<Rightarrow>
          (case publish z r now topic payload (nw_behaviour n) of
             (Inl _, s) \<Rightarrow> Inl Unwrap_Err
           | (Inr _, s) \<Rightarrow> Inr (n\<lparr>nw_behaviour := s\<rparr>)))"

fun handle_command ::
  "wire_format \<Rightarrow> zstd \<Rightarrow> entropy \<Rightarrow> instant \<Rightarrow> network_command \<Rightarrow> network \<Rightarrow> panic + network" where
  "handle_command f z r now (Connect addr) n = Inr (n\<lparr>nw_dialed := nw_dialed n @ [addr]\<rparr>)"
| "handle_command f z r now (GossipACK hash) n =
     publish_or_panic z r now (ack_topic (nw_id n)) (bincode_hash f hash) n"
| "handle_command f z r now (GossipMessage msg) n =
     publish_or_panic z r now (message_topic (nw_id n)) (bincode_message f msg) n"
| "handle_command f z r now (GossipSubscription sub) n =
     publish_or_panic z r now (subscribe_topic (nw_id n)) (bincode_hash f sub) n"

text \<open>
  One turn of the task's loop on the command channel. A panic ends the task: the receiving end of
  the channel is gone and nothing is handled any more.
\<close>

definition command_turn :: "wire_format \<Rightarrow> zstd \<Rightarrow> entropy \<Rightarrow> instant \<Rightarrow> network \<Rightarrow> network" where
  "command_turn f z r now n =
     (if nw_alive n then
        (case nw_out n of
           [] \<Rightarrow> n
         | c # cs \<Rightarrow>
             (case handle_command f z r now c (n\<lparr>nw_out := cs\<rparr>) of
                Inl _ \<Rightarrow> n\<lparr>nw_out := cs, nw_alive := False\<rparr>
              | Inr n \<Rightarrow> n))
      else n)"

subsection \<open>The handle the main loop has\<close>

text \<open>\<open>UnboundedSender::send\<close> fails, giving the command back, when the receiver is gone.\<close>

definition send_command :: "network_command \<Rightarrow> network \<Rightarrow> network_command + network" where
  "send_command c n = (if nw_alive n then Inr (n\<lparr>nw_out := nw_out n @ [c]\<rparr>) else Inl c)"

definition gossip_message :: "message \<Rightarrow> network \<Rightarrow> network_command + network" where
  "gossip_message m = send_command (GossipMessage m)"

definition gossip_subscription :: "subscription \<Rightarrow> network \<Rightarrow> network_command + network" where
  "gossip_subscription s = send_command (GossipSubscription s)"

definition gossip_ack :: "multihash \<Rightarrow> network \<Rightarrow> network_command + network" where
  "gossip_ack h = send_command (GossipACK h)"

text \<open>
  \<open>Network::poll\<close>: the next event; with the task gone and the channel empty, \<open>recv\<close> yields \<open>None\<close>.
\<close>

definition network_poll :: "network \<Rightarrow> network_event option poll \<times> network" where
  "network_poll n =
     (case nw_in n of
        e # es \<Rightarrow> (Ready (Some e), n\<lparr>nw_in := es\<rparr>)
      | [] \<Rightarrow> (if nw_alive n then Pending else Ready None, n))"

subsection \<open>Turns of the swarm\<close>

text \<open>
  The swarm calls the callbacks of the behaviour and polls it; it never subscribes, unsubscribes or
  publishes. A panic in a callback or in the poll ends the task, as one in a command does.
\<close>

fun swarm_call :: "episub_op \<Rightarrow> bool" where
  "swarm_call (Ep_Subscribe _ _) = False"
| "swarm_call (Ep_Unsubscribe _) = False"
| "swarm_call (Ep_Publish _ _ _ _) = False"
| "swarm_call (Ep_Poll _ _ _) = False"
| "swarm_call _ = True"

definition swarm_turn :: "wire_codec \<Rightarrow> zstd \<Rightarrow> episub_op \<Rightarrow> network \<Rightarrow> network" where
  "swarm_turn w z op n =
     (if nw_alive n then
        (case episub_step w z op (nw_behaviour n) of
           Inl _ \<Rightarrow> n\<lparr>nw_alive := False\<rparr>
         | Inr s \<Rightarrow> n\<lparr>nw_behaviour := s\<rparr>)
      else n)"

text \<open>An event of the behaviour that a poll returns is what \<open>swarm.next()\<close> yields.\<close>

definition swarm_poll ::
  "wire_codec \<Rightarrow> wire_format \<Rightarrow> (nat \<Rightarrow> entropy) \<Rightarrow> clock \<Rightarrow> poll_params \<Rightarrow> network \<Rightarrow> network" where
  "swarm_poll w f rs clk params n =
     (if nw_alive n then
        (case poll_episub w rs clk params (nw_behaviour n) of
           Inl _ \<Rightarrow> n\<lparr>nw_alive := False\<rparr>
         | Inr (Ready (GenerateEvent event), s) \<Rightarrow> handle_swarm_event f event (n\<lparr>nw_behaviour := s\<rparr>)
         | Inr (_, s) \<Rightarrow> n\<lparr>nw_behaviour := s\<rparr>)
      else n)"

subsection \<open>Reachable states\<close>

inductive network_reachable :: "wire_codec \<Rightarrow> wire_format \<Rightarrow> zstd \<Rightarrow> network \<Rightarrow> bool" for w f z where
  network_init: "network_reachable w f z (network_new clk i bootstrap)"
| network_call: "network_reachable w f z n \<Longrightarrow> swarm_call op \<Longrightarrow> network_reachable w f z (swarm_turn w z op n)"
| network_swarm: "network_reachable w f z n \<Longrightarrow> network_reachable w f z (swarm_poll w f rs clk params n)"
| network_command: "network_reachable w f z n \<Longrightarrow> network_reachable w f z (command_turn f z r now n)"
| network_send: "network_reachable w f z n \<Longrightarrow> send_command c n = Inr n' \<Longrightarrow> network_reachable w f z n'"
| network_receive: "network_reachable w f z n \<Longrightarrow> network_reachable w f z (snd (network_poll n))"

end
