(* ===== verification/Message_Bus.thy ===== *)
theory Message_Bus
  imports Primitives Event_Queue
begin

section \<open>The message bus\<close>

text \<open>
  \<open>src/src/bus.rs\<close>: the subscriptions that local websockets hold, one socket for each topic, and a
  queue of events for the main loop. A socket belongs to axum: its type is a parameter and sending a text
  on it a function that returns the socket after the call. \<open>DashMap\<close> and \<open>SegQueue\<close> are a map and a
  queue that threads may share; the main loop calls them one operation at a time.
\<close>

datatype bus_event = MessageDelivered multihash | SubscriptionCreated multihash | SubscriptionDropped multihash

datatype send_error = Serialization string | Web_Socket string

record 'sock bus =
  bus_topics :: "(multihash \<times> 'sock) list"
  bus_events :: "bus_event list"

record 'sock socket_ops =
  sock_send :: "'sock \<Rightarrow> string \<Rightarrow> (string + unit) \<times> 'sock"
  message_to_json :: "message \<Rightarrow> string + string"

definition bus_new :: "'sock bus" where
  "bus_new = \<lparr>bus_topics = [], bus_events = []\<rparr>"

text \<open>\<open>DashMap::insert\<close> replaces: an older subscriber of the topic loses its socket.\<close>

definition create_subscription :: "multihash \<Rightarrow> 'sock \<Rightarrow> 'sock bus \<Rightarrow> 'sock bus" where
  "create_subscription topic socket b =
     b\<lparr>bus_topics := AList.update topic socket (bus_topics b),
       bus_events := bus_events b @ [SubscriptionCreated topic]\<rparr>"

definition drop_subscription :: "multihash \<Rightarrow> 'sock bus \<Rightarrow> 'sock bus" where
  "drop_subscription topic b =
     b\<lparr>bus_topics := AList.delete topic (bus_topics b),
       bus_events := bus_events b @ [SubscriptionDropped topic]\<rparr>"

text \<open>Its body is a comment.\<close>

definition drop_message :: "multihash \<Rightarrow> 'sock bus \<Rightarrow> 'sock bus" where
  "drop_message hash b = b"

definition bus_send_message ::
  "hasher \<Rightarrow> 'sock socket_ops \<Rightarrow> message \<Rightarrow> 'sock bus \<Rightarrow> panic + (send_error + unit) \<times> 'sock bus" where
  "bus_send_message h ops m b =
     (case map_of (bus_topics b) (ms_topic m) of
        Some socket \<Rightarrow>
          (case message_to_json ops m of
             Inl e \<Rightarrow> Inr (Inl (Serialization e), b)
           | Inr text \<Rightarrow>
               (case sock_send ops socket text of
                  (Inl e, socket) \<Rightarrow>
                    Inr (Inl (Web_Socket e), b\<lparr>bus_topics := AList.update (ms_topic m) socket (bus_topics b)\<rparr>)
                | (Inr _, socket) \<Rightarrow>
                    on_ok (message_multihash h m)
                      (\<lambda>(hash, m).
                         Inr (Inr (), b\<lparr>bus_topics := AList.update (ms_topic m) socket (bus_topics b),
                                        bus_events := bus_events b @ [MessageDelivered hash]\<rparr>))))
      | None \<Rightarrow> Inr (Inr (), b))"

definition bus_poll :: "'sock bus \<Rightarrow> bus_event poll \<times> 'sock bus" where
  "bus_poll b = (case bus_events b of e # es \<Rightarrow> (Ready e, b\<lparr>bus_events := es\<rparr>) | [] \<Rightarrow> (Pending, b))"

interpretation bus_queue: event_queue bus_events "\<lambda>es b. b\<lparr>bus_events := es\<rparr>" bus_poll
  by unfold_locales (simp_all add: bus_poll_def)

end
