(* ===== verification/Rpc_Protocol.thy ===== *)
theory Rpc_Protocol
  imports Complex_Main Primitives
begin

section \<open>Requests of the JSON-RPC interface\<close>

text \<open>
  \<open>src/src/rpc/protocol.rs\<close>: a text frame becomes a message to publish or a subscription. The JSON
  parser is serde_json, whose values are the datatype below; base 58 and the multihash parser are
  crates. A Rust string is the list of its UTF-8 bytes.
\<close>

datatype json =
    JNull
  | JBool bool
  | JNumber rat
  | JString string
  | JArray "json list"
  | JObject "(string \<times> json) list"

datatype request_error =
    InvalidMethod string
  | MissingField string
  | Base58Error base58_error
  | MultihashError string
  | Deserialization string

text \<open>What the parser takes from the crates.\<close>

record rpc_env =
  json_from_str :: "string \<Rightarrow> string + json"
  rpc_base58 :: base58
  multihash_from_bytes :: "bytes \<Rightarrow> string + multihash"

definition string_bytes :: "string \<Rightarrow> bytes" where
  "string_bytes s = map (\<lambda>c. word_of_nat (of_char c)) s"

text \<open>\<open>Value::get\<close> and \<open>Value::as_str\<close>.\<close>

fun json_get :: "json \<Rightarrow> string \<Rightarrow> json option" where
  "json_get (JObject entries) name = map_of entries name"
| "json_get _ _ = None"

fun json_as_str :: "json \<Rightarrow> string option" where
  "json_as_str (JString s) = Some s"
| "json_as_str _ = None"

definition get_string :: "json \<Rightarrow> string \<Rightarrow> request_error + string" where
  "get_string json name =
     (case json_get json name of
        Some (JString value) \<Rightarrow> Inr value
      | _ \<Rightarrow> Inl (MissingField name))"

definition parse_subscribe :: "rpc_env \<Rightarrow> json \<Rightarrow> request_error + subscription" where
  "parse_subscribe env json =
     (case json_get json ''params'' of
        Some params \<Rightarrow>
          (case Option.bind (json_get params ''topic'') json_as_str of
             Some topic \<Rightarrow>
               (case b58_decode (rpc_base58 env) topic of
                  Inr topic \<Rightarrow>
                    (case multihash_from_bytes env topic of
                       Inl e \<Rightarrow> Inl (MultihashError e)
                     | Inr h \<Rightarrow> Inr h)
                | Inl _ \<Rightarrow> Inl (MissingField ''params''))
           | None \<Rightarrow> Inl (MissingField ''params''))
      | None \<Rightarrow> Inl (MissingField ''params''))"

definition parse_publish :: "rpc_env \<Rightarrow> json \<Rightarrow> request_error + message" where
  "parse_publish env json =
     (case json_get json ''params'' of
        Some params \<Rightarrow>
          let topic = map_option
                (\<lambda>t. case b58_decode (rpc_base58 env) t of
                       Inl e \<Rightarrow> Inl e
                     | Inr topic \<Rightarrow> Inr (multihash_from_bytes env topic))
                (Option.bind (json_get params ''topic'') json_as_str);
              content = map_option string_bytes (Option.bind (json_get params ''message'') json_as_str)
          in (case content of
                Some content \<Rightarrow>
                  (case topic of
                     Some (Inr (Inr topic)) \<Rightarrow> Inr (message_new topic content)
                   | _ \<Rightarrow> Inl (MissingField ''params.topic''))
              | None \<Rightarrow> Inl (MissingField ''params.message''))
      | None \<Rightarrow> Inl (MissingField ''params''))"

text \<open>The result's \<open>Either\<close> is a message on the left, a subscription on the right.\<close>

definition parse_request :: "rpc_env \<Rightarrow> string \<Rightarrow> request_error + message + subscription" where
  "parse_request env request =
     (case json_from_str env request of
        Inl e \<Rightarrow> Inl (Deserialization e)
      | Inr json \<Rightarrow>
          on_ok (get_string json ''method'')
            (\<lambda>method.
               if method = ''irn_subscribe'' then on_ok (parse_subscribe env json) (\<lambda>s. Inr (Inr s))
               else if method = ''irn_publish'' then on_ok (parse_publish env json) (\<lambda>m. Inr (Inl m))
               else Inl (InvalidMethod method)))"

subsection \<open>The two branches of a request\<close>

definition str_field :: "json \<Rightarrow> string \<Rightarrow> string option" where
  "str_field json name = Option.bind (json_get json name) json_as_str"

lemma get_string_iff: "get_string json name = Inr v \<longleftrightarrow> json_get json name = Some (JString v)"
  by (auto simp: get_string_def split: option.splits json.splits)

lemma get_string_field:
  "get_string json name = (case str_field json name of Some v \<Rightarrow> Inr v | None \<Rightarrow> Inl (MissingField name))"
  by (auto simp: get_string_def str_field_def split: option.splits json.splits)

lemma parse_subscribe_iff:
  "parse_subscribe env json = Inr h \<longleftrightarrow>
     (\<exists>params t x. json_get json ''params'' = Some params \<and> str_field params ''topic'' = Some t \<and>
        b58_decode (rpc_base58 env) t = Inr x \<and> multihash_from_bytes env x = Inr h)"
  by (auto simp: parse_subscribe_def str_field_def split: option.splits sum.splits)

lemma parse_publish_iff:
  "parse_publish env json = Inr m \<longleftrightarrow>
     (\<exists>params t x h c. json_get json ''params'' = Some params \<and> str_field params ''topic'' = Some t \<and>
        str_field params ''message'' = Some c \<and>
        b58_decode (rpc_base58 env) t = Inr x \<and> multihash_from_bytes env x = Inr h \<and>
        m = message_new h (string_bytes c))"
  by (auto simp: parse_publish_def str_field_def Let_def split: option.splits sum.splits)

end
