(* ===== verification/Rpc_Service.thy ===== *)
theory Rpc_Service
  imports Rpc_Protocol
begin

section \<open>The JSON-RPC service\<close>

text \<open>
  \<open>src/src/rpc/service.rs\<close>: HTTP servers, one per address, whose websocket handlers put events into a
  channel that the service's stream reads. The shared state, with both ends of the channel, sits behind
  one \<open>Arc\<close>: the service holds a reference, every running server's router holds one, and so does
  every websocket being served. \<open>Arc::get_mut\<close> gives access only to the last reference, so what
  counts is how many servers and sockets there are.
\<close>

datatype 'sock rpc_event = RpcMessage message | RpcSubscription subscription 'sock

record 'sock service =
  sv_identity :: pubkey
  sv_events :: "'sock rpc_event list"
  sv_servers :: nat
  sv_sockets :: nat

text \<open>Each address gets a task that serves a clone of the router.\<close>

definition service_new :: "'addr list \<Rightarrow> pubkey \<Rightarrow> 'sock service" where
  "service_new addrs identity =
     \<lparr>sv_identity = identity, sv_events = [], sv_servers = length addrs, sv_sockets = 0\<rparr>"

definition serve_info :: "base58 \<Rightarrow> string \<Rightarrow> 'sock service \<Rightarrow> json" where
  "serve_info b version s =
     JObject [(''version'', JString version), (''identity'', JString (pubkey_serialize b (sv_identity s)))]"

text \<open>What \<open>socket.recv()\<close> yields: a text frame, another frame, or an error.\<close>

datatype ws_frame = Ws_Text string | Ws_Other | Ws_Error

text \<open>One round of \<open>serve_rpc_socket\<close>: the event it sends, when there is one.\<close>

definition serve_frame :: "rpc_env \<Rightarrow> 'sock \<Rightarrow> ws_frame \<Rightarrow> 'sock rpc_event option" where
  "serve_frame env socket frame =
     (case frame of
        Ws_Text msg \<Rightarrow>
          (case parse_request env msg of
             Inr (Inl message) \<Rightarrow> Some (RpcMessage message)
           | Inr (Inr subscription) \<Rightarrow> Some (RpcSubscription subscription socket)
           | Inl _ \<Rightarrow> None)
      | _ \<Rightarrow> None)"

text \<open>The loop: a subscription gives the socket away and ends it.\<close>

fun serve_rpc_socket :: "rpc_env \<Rightarrow> 'sock \<Rightarrow> ws_frame list \<Rightarrow> 'sock rpc_event list" where
  "serve_rpc_socket env socket [] = []"
| "serve_rpc_socket env socket (f # fs) =
     (case serve_frame env socket f of
        None \<Rightarrow> serve_rpc_socket env socket fs
      | Some (RpcMessage m) \<Rightarrow> RpcMessage m # serve_rpc_socket env socket fs
      | Some (RpcSubscription s k) \<Rightarrow> [RpcSubscription s k])"

definition unshared :: "'sock service \<Rightarrow> bool" where
  "unshared s \<longleftrightarrow> sv_servers s = 0 \<and> sv_sockets s = 0"

definition service_poll :: "'sock service \<Rightarrow> 'sock rpc_event poll \<times> 'sock service" where
  "service_poll s =
     (if unshared s then
        (case sv_events s of
           e # es \<Rightarrow> (Ready e, s\<lparr>sv_events := es\<rparr>)
         | [] \<Rightarrow> (Pending, s))
      else (Pending, s))"

subsection \<open>Runs of the service\<close>

text \<open>
  A server may stop, when binding its address fails and its task panics; it never starts again. A
  socket opens while a server runs, receives frames, and closes.
\<close>

datatype 'sock service_op = Sv_Stop | Sv_Open | Sv_Frame 'sock ws_frame | Sv_Close | Sv_Poll

fun service_step ::
  "rpc_env \<Rightarrow> 'sock service_op \<Rightarrow> 'sock service \<Rightarrow> 'sock rpc_event poll list \<times> 'sock service" where
  "service_step env Sv_Stop s = ([], s\<lparr>sv_servers := sv_servers s - 1\<rparr>)"
| "service_step env Sv_Open s =
     ([], if 0 < sv_servers s then s\<lparr>sv_sockets := Suc (sv_sockets s)\<rparr> else s)"
| "service_step env (Sv_Frame socket f) s =
     ([], if 0 < sv_sockets s then
            (case serve_frame env socket f of
               None \<Rightarrow> s
             | Some e \<Rightarrow>
                 s\<lparr>sv_events := sv_events s @ [e],
                   sv_sockets := (case e of RpcMessage _ \<Rightarrow> sv_sockets s | _ \<Rightarrow> sv_sockets s - 1)\<rparr>)
          else s)"
| "service_step env Sv_Close s = ([], s\<lparr>sv_sockets := sv_sockets s - 1\<rparr>)"
| "service_step env Sv_Poll s = (case service_poll s of (e, s) \<Rightarrow> ([e], s))"

fun service_run ::
  "rpc_env \<Rightarrow> 'sock service_op list \<Rightarrow> 'sock service \<Rightarrow> 'sock rpc_event poll list \<times> 'sock service" where
  "service_run env [] s = ([], s)"
| "service_run env (op # ops) s =
     (case service_step env op s of (outs, s) \<Rightarrow>
      case service_run env ops s of (outs', s) \<Rightarrow> (outs @ outs', s))"

lemma service_step_servers: "sv_servers (snd (service_step env op s)) \<le> sv_servers s"
  by (cases op) (auto simp: service_poll_def split: option.splits list.splits)

lemma service_run_servers: "sv_servers (snd (service_run env ops s)) \<le> sv_servers s"
proof (induction ops arbitrary: s)
  case (Cons op ops)
  from Cons [of "snd (service_step env op s)"] service_step_servers [of env op s]
  show ?case by (simp add: split_beta)
qed simp

lemma service_step_shared:
  assumes "0 < sv_servers s"
  shows "set (fst (service_step env op s)) \<subseteq> {Pending}"
    and "\<exists>es. sv_events (snd (service_step env op s)) = sv_events s @ es"
  using assms by (cases op; auto simp: service_poll_def unshared_def split: option.splits)+

lemma service_run_shared:
  "0 < sv_servers (snd (service_run env ops s)) \<Longrightarrow>
   set (fst (service_run env ops s)) \<subseteq> {Pending} \<and>
   (\<exists>es. sv_events (snd (service_run env ops s)) = sv_events s @ es)"
proof (induction ops arbitrary: s)
  case (Cons op ops)
  have "0 < sv_servers s"
    using service_run_servers [of env "op # ops" s] Cons.prems by linarith
  note step = service_step_shared [OF this, of env op]
  have "0 < sv_servers (snd (service_run env ops (snd (service_step env op s))))"
    using Cons.prems by (simp add: split_beta)
  from Cons.IH [OF this] step show ?case by (auto simp: split_beta)
qed simp

end
