(* ===== verification/Node.thy ===== *)
theory Node
  imports Network Message_Bus Rpc_Service
begin

section \<open>Command line and main loop\<close>

text \<open>
  \<open>src/src/cli.rs\<close>, \<open>src/src/main.rs\<close>, \<open>src/src/optstream.rs\<close> and the three \<open>handle!\<close> macros: how
  the options become addresses, and the loop that moves events between the network task, the bus
  and the optional JSON-RPC service. \<open>select!\<close> picks any branch that is ready, so the branch is an
  argument of a turn.
\<close>

subsection \<open>Options\<close>

datatype ip_addr = V4 u32 | V6 "128 word"

type_synonym socket_addr = "ip_addr \<times> u16"

text \<open>A path given on the command line, which need not be UTF-8.\<close>

datatype os_path = Utf8 string | Not_Utf8 bytes

record cli_opts =
  co_network_id :: string
  co_secret :: keypair
  co_verbose :: u64
  co_peer :: "socket_addr list"
  co_addr :: "ip_addr list"
  co_port :: u16
  co_rpc :: "u16 option"
  co_data_dir :: os_path

fun ip_protocol :: "ip_addr \<Rightarrow> protocol" where
  "ip_protocol (V4 a) = Ip4 a"
| "ip_protocol (V6 a) = Ip6 a"

definition listen_multiaddrs :: "cli_opts \<Rightarrow> multiaddr list" where
  "listen_multiaddrs opts = map (\<lambda>a. [ip_protocol a, Tcp (co_port opts)]) (co_addr opts)"

definition peers :: "cli_opts \<Rightarrow> multiaddr list" where
  "peers opts = map (\<lambda>(ip, port). [ip_protocol ip, Tcp port]) (co_peer opts)"

definition identity :: "cli_opts \<Rightarrow> pubkey" where
  "identity opts = keypair_public (co_secret opts)"

definition rpc_endpoints :: "cli_opts \<Rightarrow> socket_addr list option" where
  "rpc_endpoints opts = map_option (\<lambda>port. map (\<lambda>a. (a, port)) (co_addr opts)) (co_rpc opts)"

text \<open>
  The default of \<open>--secret\<close>: clap shows the value of \<open>default_value_t\<close> through \<open>Display\<close> and
  parses that text with \<open>FromStr\<close>, as it does an argument given by the user.
\<close>

definition default_secret :: "base58 \<Rightarrow> ed25519 \<Rightarrow> bytes \<Rightarrow> panic + keypair_error + keypair" where
  "default_secret b e random =
     on_ok (keypair_unique e random) (\<lambda>k. Inr (keypair_from_str b e (keypair_display b k)))"

subsection \<open>Logging\<close>

datatype log_level = Level_Error | Level_Warn | Level_Info | Level_Debug | Level_Trace

fun verbosity :: "log_level \<Rightarrow> nat" where
  "verbosity Level_Error = 1"
| "verbosity Level_Warn = 2"
| "verbosity Level_Info = 3"
| "verbosity Level_Debug = 4"
| "verbosity Level_Trace = 5"

definition log_level :: "u64 \<Rightarrow> log_level" where
  "log_level v = (if v = 1 then Level_Debug else if v = 2 then Level_Trace else Level_Info)"

text \<open>The filter of \<open>initialize_logging\<close>, on the target and the level of an event.\<close>

definition log_filter :: "log_level \<Rightarrow> string \<Rightarrow> log_level \<Rightarrow> bool" where
  "log_filter loglevel target level \<longleftrightarrow>
     take (length ''netlink'') target \<noteq> ''netlink'' \<and> verbosity level \<le> verbosity loglevel"

subsection \<open>Optional streams\<close>

definition option_next_poll :: "('s \<Rightarrow> 'a poll \<times> 's) \<Rightarrow> 's option \<Rightarrow> 'a poll \<times> 's option" where
  "option_next_poll poll_next s =
     (case s of
        Some s \<Rightarrow> (case poll_next s of (p, s) \<Rightarrow> (p, Some s))
      | None \<Rightarrow> (Pending, None))"

definition option_next_terminated :: "('s \<Rightarrow> bool) \<Rightarrow> 's option \<Rightarrow> bool" where
  "option_next_terminated is_terminated s = (case s of Some s \<Rightarrow> is_terminated s | None \<Rightarrow> True)"

subsection \<open>The node\<close>

record 'sock node =
  nd_network :: network
  nd_bus :: "'sock bus"
  nd_service :: "'sock service option"

definition node_start :: "clock \<Rightarrow> cli_opts \<Rightarrow> 'sock node" where
  "node_start clk opts =
     \<lparr>nd_network = network_new clk (co_network_id opts) (peers opts),
      nd_bus = bus_new,
      nd_service = map_option (\<lambda>addrs. service_new addrs (identity opts)) (rpc_endpoints opts)\<rparr>"

text \<open>The \<open>?\<close> of a failed send ends \<open>main\<close> with the command that could not be sent.\<close>

definition on_network :: "(network \<Rightarrow> network_command + network) \<Rightarrow> 'sock node \<Rightarrow> network_command + 'sock node" where
  "on_network f nd = on_ok (f (nd_network nd)) (\<lambda>n. Inr (nd\<lparr>nd_network := n\<rparr>))"

fun handle_network_event :: "network_event \<Rightarrow> 'sock node \<Rightarrow> network_command + 'sock node" where
  "handle_network_event (MessageReceived msg) nd = Inr nd"
| "handle_network_event (MessageAcknowledged hash) nd = Inr (nd\<lparr>nd_bus := drop_message hash (nd_bus nd)\<rparr>)"
| "handle_network_event (SubscriptionReceived sub) nd = Inr nd"

fun handle_bus_event :: "bus_event \<Rightarrow> 'sock node \<Rightarrow> network_command + 'sock node" where
  "handle_bus_event (MessageDelivered hash) nd = on_network (gossip_ack hash) nd"
| "handle_bus_event (SubscriptionCreated topic) nd = on_network (gossip_subscription topic) nd"
| "handle_bus_event (SubscriptionDropped topic) nd = Inr nd"

fun handle_rpc_event :: "'sock rpc_event \<Rightarrow> 'sock node \<Rightarrow> network_command + 'sock node" where
  "handle_rpc_event (RpcMessage msg) nd = on_network (gossip_message msg) nd"
| "handle_rpc_event (RpcSubscription sub socket) nd =
     Inr (nd\<lparr>nd_bus := create_subscription sub socket (nd_bus nd)\<rparr>)"

text \<open>One turn of the loop; a branch whose pattern does not match leaves the node alone.\<close>

datatype branch = Network_Branch | Bus_Branch | Rpc_Branch

fun main_turn :: "branch \<Rightarrow> 'sock node \<Rightarrow> network_command + 'sock node" where
  "main_turn Network_Branch nd =
     (case network_poll (nd_network nd) of
        (Ready (Some e), n) \<Rightarrow> handle_network_event e (nd\<lparr>nd_network := n\<rparr>)
      | _ \<Rightarrow> Inr nd)"
| "main_turn Bus_Branch nd =
     (case bus_poll (nd_bus nd) of
        (Ready e, b) \<Rightarrow> handle_bus_event e (nd\<lparr>nd_bus := b\<rparr>)
      | _ \<Rightarrow> Inr nd)"
| "main_turn Rpc_Branch nd =
     (case option_next_poll service_poll (nd_service nd) of
        (Ready e, s) \<Rightarrow> handle_rpc_event e (nd\<lparr>nd_service := s\<rparr>)
      | _ \<Rightarrow> Inr nd)"

fun main_run :: "branch list \<Rightarrow> 'sock node \<Rightarrow> network_command + 'sock node" where
  "main_run [] nd = Inr nd"
| "main_run (b # bs) nd = on_ok (main_turn b nd) (main_run bs)"

end
