(* ===== verification/Node_Properties.thy ===== *)
theory Node_Properties
  imports Node
begin

section \<open>What the main loop guarantees\<close>

text \<open>
  Requests flow from the JSON-RPC service through the bus to the network task without loss, duplication
  or reordering; and the service gives none out while one of its servers runs.
\<close>

subsection \<open>The flow as an abstract queue\<close>

text \<open>
  The abstraction: the messages on their way to the network task, oldest first, and the subscriptions,
  which pass through the bus.
\<close>

fun command_message :: "network_command \<Rightarrow> message option" where
  "command_message (GossipMessage m) = Some m"
| "command_message _ = None"

fun command_subscription :: "network_command \<Rightarrow> subscription option" where
  "command_subscription (GossipSubscription s) = Some s"
| "command_subscription _ = None"

fun event_message :: "'sock rpc_event \<Rightarrow> message option" where
  "event_message (RpcMessage m) = Some m"
| "event_message _ = None"

fun event_subscription :: "'sock rpc_event \<Rightarrow> subscription option" where
  "event_subscription (RpcSubscription s _) = Some s"
| "event_subscription _ = None"

fun bus_subscription :: "bus_event \<Rightarrow> subscription option" where
  "bus_subscription (SubscriptionCreated t) = Some t"
| "bus_subscription _ = None"

definition service_queue :: "'sock node \<Rightarrow> 'sock rpc_event list" where
  "service_queue nd = (case nd_service nd of Some s \<Rightarrow> sv_events s | None \<Rightarrow> [])"

definition message_flow :: "'sock node \<Rightarrow> message list" where
  "message_flow nd =
     List.map_filter command_message (nw_out (nd_network nd)) @
     List.map_filter event_message (service_queue nd)"

definition subscription_flow :: "'sock node \<Rightarrow> subscription list" where
  "subscription_flow nd =
     List.map_filter command_subscription (nw_out (nd_network nd)) @
     List.map_filter bus_subscription (bus_events (nd_bus nd)) @
     List.map_filter event_subscription (service_queue nd)"

definition same_flow :: "'sock node \<Rightarrow> 'sock node \<Rightarrow> bool" where
  "same_flow nd nd' \<longleftrightarrow>
     message_flow nd' = message_flow nd \<and> subscription_flow nd' = subscription_flow nd \<and>
     nw_alive (nd_network nd') = nw_alive (nd_network nd)"

lemma map_filter_snoc:
  "List.map_filter f (xs @ [x]) = List.map_filter f xs @ (case f x of None \<Rightarrow> [] | Some y \<Rightarrow> [y])"
  by (induction xs) (auto simp: List.map_filter_simps split: option.splits)

lemmas flow_defs = same_flow_def message_flow_def subscription_flow_def service_queue_def
  List.map_filter_simps map_filter_snoc

lemma network_branch_flow:
  assumes "main_turn Network_Branch nd = Inr nd'"
  shows "same_flow nd nd'"
proof (cases "nw_in (nd_network nd)")
  case Nil
  with assms show ?thesis by (auto simp: network_poll_def same_flow_def split: if_splits)
next
  case (Cons e es)
  with assms show ?thesis
    by (cases e) (auto simp: network_poll_def drop_message_def flow_defs)
qed

lemma bus_branch_flow:
  assumes "nw_alive (nd_network nd)"
  shows "\<exists>nd'. main_turn Bus_Branch nd = Inr nd' \<and> same_flow nd nd'"
proof (cases "bus_events (nd_bus nd)")
  case Nil
  then show ?thesis by (simp add: bus_queue.pop_empty same_flow_def)
next
  case (Cons e es)
  with assms show ?thesis
    by (cases e) (simp_all add: bus_queue.pop_cons on_network_def gossip_ack_def gossip_subscription_def
        send_command_def flow_defs)
qed

lemma rpc_branch_flow:
  assumes "nw_alive (nd_network nd)"
  shows "\<exists>nd'. main_turn Rpc_Branch nd = Inr nd' \<and> same_flow nd nd'"
proof (cases "nd_service nd")
  case None
  then show ?thesis by (simp add: option_next_poll_def same_flow_def)
next
  case (Some s)
  show ?thesis
  proof (cases "unshared s \<and> sv_events s \<noteq> []")
    case True
    then obtain e es where "sv_events s = e # es" by (cases "sv_events s") auto
    with Some True assms show ?thesis
      by (cases e) (simp_all add: option_next_poll_def service_poll_def on_network_def gossip_message_def
          send_command_def create_subscription_def flow_defs)
  next
    case False
    with Some show ?thesis
      by (auto simp: option_next_poll_def service_poll_def same_flow_def split: list.split)
  qed
qed

lemma main_turn_flow:
  assumes "nw_alive (nd_network nd)"
  shows "\<exists>nd'. main_turn b nd = Inr nd' \<and> same_flow nd nd'"
proof (cases b)
  case Network_Branch
  have "\<exists>nd'. main_turn Network_Branch nd = Inr nd'"
    by (cases "nw_in (nd_network nd)"; cases "hd (nw_in (nd_network nd))") (auto simp: network_poll_def)
  with Network_Branch network_branch_flow show ?thesis by blast
qed (use assms bus_branch_flow rpc_branch_flow in blast)+

text \<open>
  C20. The main loop is a queue. As long as the network task lives, no turn of the loop fails, whichever
  branches are picked in whichever order; and the messages and subscriptions on their way to the task are
  afterwards the same, in the same order: each turn only moves one of them further along.
\<close>

theorem main_loop_refines_queue:
  assumes "nw_alive (nd_network nd)"
  shows "\<exists>nd'. main_run bs nd = Inr nd' \<and> message_flow nd' = message_flow nd \<and>
    subscription_flow nd' = subscription_flow nd"
  using assms
proof (induction bs arbitrary: nd)
  case (Cons b bs)
  from main_turn_flow [OF Cons.prems, of b] obtain nd1 where
    nd1: "main_turn b nd = Inr nd1" "same_flow nd nd1" by blast
  with Cons.prems have "nw_alive (nd_network nd1)" by (simp add: same_flow_def)
  from Cons.IH [OF this] nd1 show ?case by (auto simp: same_flow_def)
qed simp

definition sample_opts :: cli_opts where
  "sample_opts = \<lparr>co_network_id = ''n'', co_secret = \<lparr>kp_secret = [], kp_public = []\<rparr>, co_verbose = 0,
     co_peer = [(V4 1, 2)], co_addr = [V4 0], co_port = 44668, co_rpc = None,
     co_data_dir = Utf8 ''d''\<rparr>"

theorem main_loop_refines_queue_witness:
  "\<exists>nd'. main_run [Rpc_Branch, Bus_Branch, Network_Branch]
      (((node_start (\<lambda>_. 0) sample_opts) :: nat node)
         \<lparr>nd_bus := create_subscription \<lparr>mh_code = 0, mh_digest = [1]\<rparr> 7 bus_new\<rparr>) = Inr nd' \<and>
     message_flow nd' = [] \<and> subscription_flow nd' = [\<lparr>mh_code = 0, mh_digest = [1]\<rparr>]"
proof -
  let ?nd = "((node_start (\<lambda>_. 0) sample_opts) :: nat node)
    \<lparr>nd_bus := create_subscription \<lparr>mh_code = 0, mh_digest = [1]\<rparr> 7 bus_new\<rparr>"
  have "nw_alive (nd_network ?nd)" by (simp add: node_start_def network_new_def Let_def)
  moreover have "message_flow ?nd = []" "subscription_flow ?nd = [\<lparr>mh_code = 0, mh_digest = [1]\<rparr>]"
    by (simp_all add: node_start_def network_new_def create_subscription_def bus_new_def peers_def bootstrap_commands_def
        sample_opts_def rpc_endpoints_def Let_def flow_defs)
  ultimately show ?thesis
    using main_loop_refines_queue [of ?nd "[Rpc_Branch, Bus_Branch, Network_Branch]"] by simp
qed

subsection \<open>The service's events\<close>


definition publish_env :: rpc_env where
  "publish_env =
     \<lparr>json_from_str = (\<lambda>text. Inr (JObject [(''method'', JString ''irn_publish''),
        (''params'', JObject [(''topic'', JString ''t''), (''message'', JString text)])])),
      rpc_base58 = \<lparr>b58_encode = (\<lambda>_. ''''), b58_decode = (\<lambda>s. Inr []), b58_decode_into = (\<lambda>s b. Inr b)\<rparr>,
      multihash_from_bytes = (\<lambda>b. Inr \<lparr>mh_code = 0, mh_digest = b\<rparr>)\<rparr>"


end
