(* ===== verification/Primitives_Properties.thy ===== *)
theory Primitives_Properties
  imports Node
begin

section \<open>Properties of keys, messages and requests\<close>

subsection \<open>Concrete crates\<close>

text \<open>For evaluating the model: a base 58 with one character a byte, and keys that are reversed bytes.\<close>

definition toy_base58 :: base58 where
  "toy_base58 =
     \<lparr>b58_encode = map (\<lambda>w. char_of (unat w)),
      b58_decode = (\<lambda>s. Inr (string_bytes s)),
      b58_decode_into = (\<lambda>s buf.
        if length s \<le> length buf then Inr (string_bytes s @ drop (length s) buf) else Inl BufferTooSmall)\<rparr>"

lemma string_bytes_chars: "string_bytes (map (\<lambda>w. char_of (unat w)) x) = x"
proof -
  have "word_of_nat (of_char (char_of (unat w) :: char)) = w" for w :: u8
  proof -
    have "unat w < 2 ^ LENGTH(8)" by (rule unsigned_less)
    then show ?thesis by (simp add: take_bit_nat_def)
  qed
  then show ?thesis by (simp add: string_bytes_def comp_def)
qed

lemma toy_base58_ok: "base58_ok toy_base58"
  by (simp add: base58_ok_def toy_base58_def string_bytes_chars)

definition toy_ed25519 :: ed25519 where
  "toy_ed25519 =
     \<lparr>ed_secret_from_bytes = (\<lambda>x. if length x = 32 then Inr x else Inl ''bad length''),
      ed_public = (\<lambda>x. take 32 (rev x @ replicate 32 0)),
      ed_keypair_from_bytes = (\<lambda>x. Inr \<lparr>kp_secret = take 32 x, kp_public = drop 32 x\<rparr>)\<rparr>"

lemma toy_ed25519_ok: "ed25519_ok toy_ed25519"
  by (auto simp: ed25519_ok_def toy_ed25519_def min_def)

subsection \<open>Public keys\<close>

text \<open>
  A public key round-trips through its text, by parsing and by deserializing. The parser takes shorter
  strings too: the base 58 form of any at most 32 bytes is accepted as the key of those bytes and zeros,
  and only a longer one is refused.
\<close>

theorem pubkey_text_roundtrip:
  assumes "base58_ok b" and "pubkey_wf k"
  shows "pubkey_from_str b (pubkey_display b k) = Inr k \<and>
    pubkey_deserialize_str b show_error (pubkey_serialize b k) = Inr k \<and>
    pubkey_from_str b (b58_encode b x) =
      (if length x \<le> 32 then Inr (Pubkey (x @ replicate (32 - length x) 0)) else Inl BufferTooSmall)"
proof -
  have into: "b58_decode_into b (b58_encode b x) (replicate 32 0) =
      (if length x \<le> 32 then Inr (x @ replicate (32 - length x) 0) else Inl BufferTooSmall)" for x
    using assms(1) by (simp add: base58_ok_def)
  obtain y where k: "k = Pubkey y" by (cases k)
  with assms(2) have "length y = 32" by (simp add: pubkey_wf_def)
  with k show ?thesis
    by (simp add: pubkey_from_str_def pubkey_deserialize_str_def pubkey_serialize_def into)
qed

theorem pubkey_text_roundtrip_witness:
  "pubkey_from_str toy_base58 (pubkey_display toy_base58 (Pubkey (replicate 32 65))) = Inr (Pubkey (replicate 32 65)) \<and>
   pubkey_from_str toy_base58 (b58_encode toy_base58 [66]) = Inr (Pubkey (66 # replicate 31 0))"
proof -
  have "pubkey_wf (Pubkey (replicate 32 65))" by (simp add: pubkey_wf_def)
  from pubkey_text_roundtrip [OF toy_base58_ok this, of "\<lambda>_. ''''" "[66]"] show ?thesis by simp
qed

text \<open>A sequence that is shown again as a sequence is never read.\<close>

lemma deserialize_seq:
  assumes "\<And>xs. seq_access xs = Visit_Seq xs" and "pubkey_deserialize b show_error seq_access v = Some r"
  shows "\<not> is_seq v"
proof (rule pubkey_deserialize.raw_induct [where P = "\<lambda>b s a v r. a = seq_access \<longrightarrow> \<not> is_seq v", THEN mp, OF _ assms(2)])
  fix f b s a v and r :: "string + pubkey"
  assume IH: "\<And>b s a v r. f b s a v = Some r \<Longrightarrow> a = seq_access \<longrightarrow> \<not> is_seq v"
    and eq: "(if is_seq v then f b s a (a (seq_of v))
      else Some (on_ok (text_of v) (pubkey_deserialize_str b s))) = Some r"
  show "a = seq_access \<longrightarrow> \<not> is_seq v"
  proof (intro impI notI)
    assume "a = seq_access" "is_seq v"
    with eq IH [of b s a "a (seq_of v)" r] assms(1) show False by simp
  qed
qed simp

text \<open>
  C39. Which inputs deserialize to a public key. A key round-trips through the string it serializes to; a
  string that encodes fewer bytes is accepted too, as the key of those bytes and zeros, and only a longer
  one is refused. A sequence of bytes, which the code means to accept as a second format, is never read: the
  visitor deserializes the key again from it, which asks the sequence for a string and is shown the same
  sequence, so the call does not return.
\<close>

theorem pubkey_formats:
  assumes "base58_ok b" and "pubkey_wf k" and "\<And>xs. seq_access xs = Visit_Seq xs"
  shows "pubkey_deserialize b show_error seq_access (Visit_Text (Inr (pubkey_serialize b k))) = Some (Inr k) \<and>
    pubkey_deserialize b show_error seq_access (Visit_Text (Inr (b58_encode b x))) =
      Some (if length x \<le> 32 then Inr (Pubkey (x @ replicate (32 - length x) 0)) else Inl (show_error BufferTooSmall)) \<and>
    pubkey_deserialize b show_error seq_access (Visit_Text (Inl e)) = Some (Inl e) \<and>
    pubkey_deserialize b show_error seq_access (Visit_Seq xs) = None"
proof -
  have into: "b58_decode_into b (b58_encode b x) (replicate 32 0) =
      (if length x \<le> 32 then Inr (x @ replicate (32 - length x) 0) else Inl BufferTooSmall)" for x
    using assms(1) by (simp add: base58_ok_def)
  obtain y where k: "k = Pubkey y" by (cases k)
  with assms(2) have "length y = 32" by (simp add: pubkey_wf_def)
  moreover have "pubkey_deserialize b show_error seq_access (Visit_Seq xs) = None"
    using deserialize_seq [OF assms(3), of b show_error "Visit_Seq xs"]
    by (cases "pubkey_deserialize b show_error seq_access (Visit_Seq xs)") auto
  ultimately show ?thesis
    by (simp add: k pubkey_deserialize.simps [of _ _ _ "Visit_Text _"] pubkey_deserialize_str_def
        pubkey_from_str_def pubkey_serialize_def into)
qed

theorem pubkey_formats_witness:
  "pubkey_deserialize toy_base58 (\<lambda>_. ''error'') Visit_Seq (Visit_Seq [1, 2]) = None \<and>
   pubkey_deserialize toy_base58 (\<lambda>_. ''error'') Visit_Seq (Visit_Text (Inr (b58_encode toy_base58 [66]))) =
     Some (Inr (Pubkey (66 # replicate 31 0)))"
proof -
  have "pubkey_wf (Pubkey (replicate 32 65))" by (simp add: pubkey_wf_def)
  from pubkey_formats [OF toy_base58_ok this refl, of "\<lambda>_. ''error''" "[66]" "''e''" "[1, 2]"]
  show ?thesis by simp
qed

subsection \<open>Key pairs\<close>

text \<open>
  C40. The secret a node uses when none is given. The generated key pair reaches the options as text; its text is
  its public key, and parsing takes text as a secret key. So the secret of the node is the public key
  of the generated pair, its public key the one that belongs to that, and the generated secret is
  forgotten. For a pair built from 32 bytes nothing in this can fail, and cloning gives the pair back.
\<close>

theorem default_secret_is_a_public_key:
  assumes "base58_ok b" and "ed25519_ok e" and "length random = 32"
  shows "default_secret b e random =
      Inr (Inr \<lparr>kp_secret = ed_public e random, kp_public = ed_public e (ed_public e random)\<rparr>) \<and>
    keypair_unique e random = Inr \<lparr>kp_secret = random, kp_public = ed_public e random\<rparr> \<and>
    keypair_clone e \<lparr>kp_secret = random, kp_public = ed_public e random\<rparr> =
      Inr \<lparr>kp_secret = random, kp_public = ed_public e random\<rparr>"
proof -
  have len: "length (ed_public e random) = 32" and secret: "length x = 32 \<Longrightarrow> ed_secret_from_bytes e x = Inr x"
    and pair: "ed_keypair_from_bytes e (random @ ed_public e random) = Inr \<lparr>kp_secret = random, kp_public = ed_public e random\<rparr>"
    for x using assms(2,3) by (simp_all add: ed25519_ok_def)
  have "b58_decode_into b (b58_encode b (ed_public e random)) (replicate 32 0) = Inr (ed_public e random)"
    using assms(1) len by (simp add: base58_ok_def)
  then show ?thesis
    using secret [OF len] secret [OF assms(3)] pair
    by (simp add: default_secret_def keypair_unique_def keypair_try_from_def keypair_from_str_def
        keypair_display_def keypair_clone_def)
qed

theorem default_secret_is_a_public_key_witness:
  "default_secret toy_base58 toy_ed25519 (replicate 32 65) =
     Inr (Inr \<lparr>kp_secret = replicate 32 65, kp_public = replicate 32 65\<rparr>)"
proof -
  have "length (replicate 32 (65::u8)) = 32" by simp
  from default_secret_is_a_public_key [OF toy_base58_ok toy_ed25519_ok this] show ?thesis
    by (simp add: toy_ed25519_def)
qed

text \<open>
  Printing a key pair for debugging never panics on a pair with a 32 byte secret, and reveals eight
  characters of the secret: the result depends on the first and the last four characters of its text only, the same
  for two secrets whose texts agree there.
\<close>

theorem debug_redacts_secret:
  assumes "base58_ok b" and "length (kp_secret k) = 32"
  shows "(\<exists>secret. keypair_debug b k = Inr (secret, b58_encode b (kp_public k)) \<and> length secret = 11) \<and>
    (\<forall>k'. length (kp_secret k') = 32 \<and> kp_public k' = kp_public k \<and>
        take 4 (b58_encode b (kp_secret k')) = take 4 (b58_encode b (kp_secret k)) \<and>
        rev (take 4 (rev (b58_encode b (kp_secret k')))) = rev (take 4 (rev (b58_encode b (kp_secret k)))) \<longrightarrow>
      keypair_debug b k' = keypair_debug b k)"
proof -
  have shape: "redact (b58_encode b x) =
      Inr (take 4 (b58_encode b x) @ ''...'' @ rev (take 4 (rev (b58_encode b x))))"
      "32 \<le> length (b58_encode b x)" if "length x = 32" for x
  proof -
    show len: "32 \<le> length (b58_encode b x)" using assms(1) that by (simp add: base58_ok_def)
    then have "length (b58_encode b x) - 5 + 1 = length (b58_encode b x) - 4" by simp
    with len show "redact (b58_encode b x) =
        Inr (take 4 (b58_encode b x) @ ''...'' @ rev (take 4 (rev (b58_encode b x))))"
      by (simp add: redact_def take_rev)
  qed
  show ?thesis
  proof (intro conjI allI impI)
    show "\<exists>secret. keypair_debug b k = Inr (secret, b58_encode b (kp_public k)) \<and> length secret = 11"
      using shape [OF assms(2)] by (simp add: keypair_debug_def)
    show "keypair_debug b k' = keypair_debug b k"
      if "length (kp_secret k') = 32 \<and> kp_public k' = kp_public k \<and>
        take 4 (b58_encode b (kp_secret k')) = take 4 (b58_encode b (kp_secret k)) \<and>
        rev (take 4 (rev (b58_encode b (kp_secret k')))) = rev (take 4 (rev (b58_encode b (kp_secret k))))" for k'
      using that shape(1) [OF assms(2)] shape(1) [of "kp_secret k'"] by (simp only: keypair_debug_def)
  qed
qed

theorem debug_redacts_secret_witness:
  "\<exists>secret. keypair_debug toy_base58 \<lparr>kp_secret = replicate 32 65, kp_public = []\<rparr> = Inr (secret, '''') \<and>
     length secret = 11"
proof -
  have "length (kp_secret \<lparr>kp_secret = replicate 32 (65::u8), kp_public = []\<rparr>) = 32" by simp
  from debug_redacts_secret [OF toy_base58_ok this, THEN conjunct1] show ?thesis by (simp add: toy_base58_def)
qed

subsection \<open>Message hashes\<close>

text \<open>The hash as a function of topic and content, without a cache.\<close>

definition reference_hash :: "hasher \<Rightarrow> message \<Rightarrow> multihash" where
  "reference_hash h m =
     \<lparr>mh_code = sha3_256_code, mh_digest = sha3_256 h (mh_to_bytes h (ms_topic m) @ ms_content m)\<rparr>"

definition cache_coherent :: "hasher \<Rightarrow> message \<Rightarrow> bool" where
  "cache_coherent h m \<longleftrightarrow> ms_hashcache m = None \<or> ms_hashcache m = Some (reference_hash h m)"

text \<open>
  The cached hash is the hash. From a message just made or just decoded on, every call returns what an
  uncached computation gives, never panics, and leaves topic, content and the coherence of the cache
  alone, given that SHA-3 yields at most 64 bytes. Two messages with the same topic and content have the
  same hash whatever their caches hold.
\<close>

theorem multihash_equals_reference:
  assumes "\<And>x. length (sha3_256 h x) \<le> 64"
  shows "cache_coherent h (message_new t c) \<and> cache_coherent h (m\<lparr>ms_hashcache := None\<rparr>) \<and>
    (cache_coherent h m \<longrightarrow>
      (\<exists>m'. message_multihash h m = Inr (reference_hash h m, m') \<and> cache_coherent h m' \<and>
         ms_topic m' = ms_topic m \<and> ms_content m' = ms_content m \<and>
         message_multihash h m' = Inr (reference_hash h m, m')))"
  using assms [THEN leD]
  by (auto simp: cache_coherent_def message_new_def message_multihash_def reference_hash_def Let_def)

theorem multihash_equals_reference_witness:
  "\<exists>m'. message_multihash \<lparr>sha3_256 = take 32, mh_to_bytes = mh_digest\<rparr>
       (message_new \<lparr>mh_code = 0, mh_digest = [1]\<rparr> [2]) =
     Inr (\<lparr>mh_code = sha3_256_code, mh_digest = [1, 2]\<rparr>, m')"
proof -
  let ?h = "\<lparr>sha3_256 = take 32, mh_to_bytes = mh_digest\<rparr>"
  have "length (sha3_256 ?h x) \<le> 64" for x by simp
  from multihash_equals_reference [of ?h, OF this, of "\<lparr>mh_code = 0, mh_digest = [1]\<rparr>" "[2]"
      "message_new \<lparr>mh_code = 0, mh_digest = [1]\<rparr> [2]"]
  show ?thesis by (auto simp: reference_hash_def message_new_def)
qed

subsection \<open>Requests\<close>


end
