(* ===== verification/Startup.thy ===== *)
theory Startup
  imports Node_Properties Primitives_Properties
begin

section \<open>Starting a node\<close>

text \<open>
  What \<open>main\<close> does before its loop: \<open>print_essentials\<close> and the services of \<open>src/src/main.rs\<close>, \<open>data_dir\<close> and
  \<open>p2p_identity\<close> of \<open>src/src/cli.rs\<close>, \<open>create_transport\<close> and the fallible part of \<open>Network::new\<close> of
  \<open>src/src/network/mod.rs\<close>, and \<open>src/src/storage.rs\<close>. An operation that makes directories returns them with
  its result, also when it fails.
\<close>

subsection \<open>The environment\<close>

text \<open>
  \<open>shellexpand::full\<close>, \<open>create_dir_all\<close> (its first argument counts the calls), the DNS transport, the signature of
  the noise keys, \<open>Swarm::listen_on\<close>, and the ed25519 crate.
\<close>

record start_env =
  se_expand :: "string \<Rightarrow> string + string"
  se_create_dir_all :: "nat \<Rightarrow> string \<Rightarrow> io_error option"
  se_dns :: "io_error option"
  se_noise :: "bytes \<Rightarrow> bool"
  se_listen :: "multiaddr \<Rightarrow> bool"
  se_ed25519 :: ed25519

datatype storage_error = Storage_Serialization string | Storage_Engine string | Storage_Io io_error

datatype start_error = Start_Panic panic | Start_Io io_error | Start_Storage storage_error

subsection \<open>Directories and identities\<close>

text \<open>\<open>PathBuf::push\<close> on Unix: an absolute path replaces the one it is pushed onto.\<close>

definition path_push :: "string \<Rightarrow> string \<Rightarrow> string" where
  "path_push base p =
     (if p \<noteq> [] \<and> hd p = CHR ''/'' then p
      else if base = [] \<or> last base = CHR ''/'' then base @ p
      else base @ ''/'' @ p)"

definition data_dir :: "start_env \<Rightarrow> nat \<Rightarrow> cli_opts \<Rightarrow> (start_error + string) \<times> string list" where
  "data_dir env k opts =
     (case co_data_dir opts of
        Not_Utf8 _ \<Rightarrow> (Inl (Start_Panic Unwrap_None), [])
      | Utf8 d \<Rightarrow>
          (case se_expand env d of
             Inl e \<Rightarrow> (Inl (Start_Io (Io_Error InvalidInput e)), [])
           | Inr d \<Rightarrow>
               let dir = path_push d (co_network_id opts)
               in case se_create_dir_all env k dir of
                    Some e \<Rightarrow> (Inl (Start_Io e), [])
                  | None \<Rightarrow> (Inr dir, [dir])))"

definition p2p_identity :: "start_env \<Rightarrow> cli_opts \<Rightarrow> start_error + keypair" where
  "p2p_identity env opts =
     (case ed_secret_from_bytes (se_ed25519 env) (kp_secret (co_secret opts)) of
        Inl _ \<Rightarrow> Inl (Start_Panic Unwrap_Err)
      | Inr secret \<Rightarrow> Inr \<lparr>kp_secret = secret, kp_public = ed_public (se_ed25519 env) secret\<rparr>)"

text \<open>\<open>print_essentials\<close>: of what it prints, the data directory and the identity can fail.\<close>

definition print_essentials :: "start_env \<Rightarrow> cli_opts \<Rightarrow> (start_error + unit) \<times> string list" where
  "print_essentials env opts =
     (case data_dir env 0 opts of
        (Inl e, made) \<Rightarrow> (Inl e, made)
      | (Inr dir, made) \<Rightarrow> (on_ok (p2p_identity env opts) (\<lambda>_. Inr ()), made))"

subsection \<open>The network\<close>

definition create_transport :: "start_env \<Rightarrow> keypair \<Rightarrow> start_error + unit" where
  "create_transport env k =
     (case se_dns env of
        Some e \<Rightarrow> Inl (Start_Io e)
      | None \<Rightarrow>
          (case ed_secret_from_bytes (se_ed25519 env) (keypair_secret k) of
             Inl _ \<Rightarrow> Inl (Start_Panic Unwrap_Err)
           | Inr secret \<Rightarrow> if se_noise env secret then Inr () else Inl (Start_Panic Expect_Failed)))"

text \<open>\<open>Network::new\<close> up to the task it spawns; \<open>network_new\<close> is what it returns.\<close>

definition network_start ::
  "start_env \<Rightarrow> clock \<Rightarrow> string \<Rightarrow> keypair \<Rightarrow> multiaddr list \<Rightarrow> multiaddr list \<Rightarrow> start_error + network" where
  "network_start env clk network_id k listenaddrs bootstrap =
     (case ed_secret_from_bytes (se_ed25519 env) (keypair_secret k) of
        Inl _ \<Rightarrow> Inl (Start_Panic Unwrap_Err)
      | Inr _ \<Rightarrow>
          on_ok (create_transport env k)
            (\<lambda>_. if list_all (se_listen env) listenaddrs then Inr (network_new clk network_id bootstrap)
                 else Inl (Start_Panic Unwrap_Err)))"

subsection \<open>Storage and the services\<close>

datatype storage = Persistent_Storage

definition storage_new :: "string \<Rightarrow> storage_error + storage" where
  "storage_new dir = Inr Persistent_Storage"

definition main_start ::
  "start_env \<Rightarrow> clock \<Rightarrow> cli_opts \<Rightarrow> (start_error + 'sock node) \<times> string list" where
  "main_start env clk opts =
     (case print_essentials env opts of
        (Inl e, made) \<Rightarrow> (Inl e, made)
      | (Inr _, made) \<Rightarrow>
          (case keypair_clone (se_ed25519 env) (co_secret opts) of
             Inl p \<Rightarrow> (Inl (Start_Panic p), made)
           | Inr secret \<Rightarrow>
               (case network_start env clk (co_network_id opts) secret (listen_multiaddrs opts) (peers opts) of
                  Inl e \<Rightarrow> (Inl e, made)
                | Inr network \<Rightarrow>
                    (case data_dir env 1 opts of
                       (Inl e, made') \<Rightarrow> (Inl e, made @ made')
                     | (Inr dir, made') \<Rightarrow>
                         (case storage_new dir of
                            Inl e \<Rightarrow> (Inl (Start_Storage e), made @ made')
                          | Inr _ \<Rightarrow>
                              (Inr \<lparr>nd_network = network, nd_bus = bus_new,
                                    nd_service = map_option (\<lambda>addrs. service_new addrs (identity opts))
                                                   (rpc_endpoints opts)\<rparr>,
                               made @ made'))))))"

subsection \<open>When a node starts\<close>

text \<open>The directory a start makes, if its options name one.\<close>

definition start_dir :: "start_env \<Rightarrow> cli_opts \<Rightarrow> string option" where
  "start_dir env opts =
     (case co_data_dir opts of
        Not_Utf8 _ \<Rightarrow> None
      | Utf8 d \<Rightarrow> (case se_expand env d of Inl _ \<Rightarrow> None | Inr d \<Rightarrow> Some (path_push d (co_network_id opts))))"

text \<open>A key pair as \<open>--secret\<close> gives it, from 32 bytes.\<close>

definition parsed_secret :: "start_env \<Rightarrow> keypair \<Rightarrow> bool" where
  "parsed_secret env k \<longleftrightarrow> length (kp_secret k) = 32 \<and> kp_public k = ed_public (se_ed25519 env) (kp_secret k)"

lemma data_dir_made:
  "data_dir env k opts =
     (case start_dir env opts of
        Some dir \<Rightarrow> (case se_create_dir_all env k dir of Some e \<Rightarrow> (Inl (Start_Io e), []) | None \<Rightarrow> (Inr dir, [dir]))
      | None \<Rightarrow> (Inl (case co_data_dir opts of
                       Not_Utf8 _ \<Rightarrow> Start_Panic Unwrap_None
                     | Utf8 d \<Rightarrow> Start_Io (Io_Error InvalidInput (projl (se_expand env d)))), []))"
  by (auto simp: data_dir_def start_dir_def Let_def split: os_path.split sum.split option.split)

lemma keys_ok:
  assumes "ed25519_ok (se_ed25519 env)" and "parsed_secret env (co_secret opts)"
  shows "ed_secret_from_bytes (se_ed25519 env) (kp_secret (co_secret opts)) = Inr (kp_secret (co_secret opts))"
    and "keypair_clone (se_ed25519 env) (co_secret opts) = Inr (co_secret opts)"
  using assms by (simp_all add: ed25519_ok_def parsed_secret_def keypair_clone_def)

lemma network_start_ok:
  assumes "ed25519_ok (se_ed25519 env)" and "parsed_secret env (co_secret opts)"
  shows "network_start env clk i (co_secret opts) as bs =
    (case se_dns env of
       Some e \<Rightarrow> Inl (Start_Io e)
     | None \<Rightarrow>
         if \<not> se_noise env (kp_secret (co_secret opts)) then Inl (Start_Panic Expect_Failed)
         else if list_all (se_listen env) as then Inr (network_new clk i bs)
         else Inl (Start_Panic Unwrap_Err))"
  by (simp add: network_start_def create_transport_def keypair_secret_def keys_ok [OF assms] split: option.split)

text \<open>
  C38. When a node starts, and how it fails. With a secret as the parser gives it, \<open>main\<close> reaches its loop exactly
  when the data directory can be named and made, twice, the transport can be set up, and every listen
  address is accepted; then the node is the one the options describe. It panics, instead of returning the error, on a
  data directory that is not UTF-8, on keys that cannot sign, and on a listen address that is refused, as
  a port in use is; the last two leave the directory behind. A network identifier that starts with a slash
  takes the place of the data directory instead of naming a directory in it.
\<close>

theorem startup_outcome:
  assumes "ed25519_ok (se_ed25519 env)" and "parsed_secret env (co_secret opts)"
  shows "(main_start env clk opts = (Inr nd, made) \<longleftrightarrow>
      nd = node_start clk opts \<and>
      (\<exists>dir. start_dir env opts = Some dir \<and> se_create_dir_all env 0 dir = None \<and>
         se_create_dir_all env 1 dir = None \<and> made = [dir, dir]) \<and>
      se_dns env = None \<and> se_noise env (kp_secret (co_secret opts)) \<and>
      list_all (se_listen env) (listen_multiaddrs opts)) \<and>
    (main_start env clk opts = ((Inl (Start_Panic p) :: start_error + 'sock node), made) \<longleftrightarrow>
      (\<exists>x. co_data_dir opts = Not_Utf8 x) \<and> p = Unwrap_None \<and> made = [] \<or>
      (\<exists>dir. start_dir env opts = Some dir \<and> se_create_dir_all env 0 dir = None \<and> made = [dir]) \<and>
      se_dns env = None \<and>
      (\<not> se_noise env (kp_secret (co_secret opts)) \<and> p = Expect_Failed \<or>
       se_noise env (kp_secret (co_secret opts)) \<and> \<not> list_all (se_listen env) (listen_multiaddrs opts) \<and>
       p = Unwrap_Err)) \<and>
    (hd (co_network_id opts) = CHR ''/'' \<and> co_network_id opts \<noteq> [] \<and> start_dir env opts = Some dir \<longrightarrow>
      dir = co_network_id opts)"
proof -
  note start = main_start_def print_essentials_def p2p_identity_def keys_ok [OF assms] network_start_ok [OF assms]
    data_dir_made storage_new_def
  have none: "start_dir env opts = None \<Longrightarrow> (\<exists>x. co_data_dir opts = Not_Utf8 x) \<or> (\<exists>d. co_data_dir opts = Utf8 d)"
    by (cases "co_data_dir opts") auto
  show ?thesis
  proof (cases "start_dir env opts")
    case None
    with none show ?thesis by (auto simp: start)
  next
    case (Some dir')
    then have utf: "\<not> (\<exists>x. co_data_dir opts = Not_Utf8 x)" by (auto simp: start_dir_def)
    have "dir' = co_network_id opts" if "hd (co_network_id opts) = CHR ''/''" "co_network_id opts \<noteq> []"
      using Some that by (auto simp: start_dir_def path_push_def split: os_path.splits sum.splits)
    with Some utf show ?thesis
      by (auto simp: start node_start_def split: option.split)
  qed
qed

definition sample_env :: "bool \<Rightarrow> start_env" where
  "sample_env free =
     \<lparr>se_expand = Inr, se_create_dir_all = (\<lambda>_ _. None), se_dns = None, se_noise = (\<lambda>_. True),
      se_listen = (\<lambda>_. free), se_ed25519 = toy_ed25519\<rparr>"

definition start_opts :: cli_opts where
  "start_opts = sample_opts\<lparr>co_secret := \<lparr>kp_secret = replicate 32 65, kp_public = replicate 32 65\<rparr>\<rparr>"

theorem startup_outcome_witness:
  "main_start (sample_env True) (\<lambda>_. 0) start_opts =
     (Inr (node_start (\<lambda>_. 0) start_opts :: nat node), [''d/n'', ''d/n'']) \<and>
   main_start (sample_env False) (\<lambda>_. 0) start_opts =
     ((Inl (Start_Panic Unwrap_Err) :: start_error + nat node), [''d/n''])"
proof -
  have "ed25519_ok (se_ed25519 (sample_env free))" "parsed_secret (sample_env free) (co_secret start_opts)" for free
    by (simp_all add: sample_env_def toy_ed25519_ok)
      (simp add: start_opts_def parsed_secret_def toy_ed25519_def)
  note outcome = startup_outcome [OF this]
  have dir: "start_dir (sample_env free) start_opts = Some ''d/n''" for free
    by (simp add: start_dir_def sample_env_def start_opts_def sample_opts_def path_push_def)
  show ?thesis
    using outcome(1) [of True "\<lambda>_. 0" "node_start (\<lambda>_. 0) start_opts :: nat node" "[''d/n'', ''d/n'']", THEN conjunct1]
      outcome [of False "\<lambda>_. 0" _ "[''d/n'']" Unwrap_Err, THEN conjunct2, THEN conjunct1] dir
    by (simp add: sample_env_def start_opts_def sample_opts_def listen_multiaddrs_def)
qed

end
