(* ===== verification/Handler.thy ===== *)
theory Handler
  imports Config
begin

section \<open>The connection handler\<close>

text \<open>
  \<open>src/src/network/episub/handler.rs\<close>: one inbound and one outbound substream per connection, each a
  state machine that \<open>poll\<close> drives in a loop. A substream is a \<open>Framed\<close> of the asynchronous_codec crate:
  its type is a parameter and its operations the record \<open>framed\<close>, each of which returns the substream
  after the call. \<open>mem::replace\<close> puts \<open>Poisoned\<close> in the field while a state is handled; a branch that
  does not store a new state leaves it there.
\<close>

datatype keep_alive = Keep_Yes | Keep_No

datatype 'sub inbound_state = WaitingInput 'sub | In_Closing 'sub | In_Poisoned

datatype 'sub outbound_state =
    SubstreamRequested
  | WaitingOutput 'sub
  | PendingSend 'sub rpc
  | PendingFlush 'sub
  | Out_Closing 'sub
  | Out_Poisoned

record 'sub handler =
  hd_max_transmit_size :: nat
  hd_outbound :: "'sub outbound_state option"
  hd_inbound :: "'sub inbound_state option"
  hd_keep_alive :: keep_alive
  hd_queue :: "rpc list"

text \<open>The three events the handler returns; \<open>listen_protocol\<close> is its frame limit.\<close>

datatype handler_event = Custom rpc | Close_Connection handler_error | OutboundSubstreamRequest nat

record 'sub framed =
  fr_next :: "'sub \<Rightarrow> (handler_error + rpc) option poll \<times> 'sub"
  fr_ready :: "'sub \<Rightarrow> (handler_error + unit) poll \<times> 'sub"
  fr_send :: "'sub \<Rightarrow> rpc \<Rightarrow> (handler_error + unit) \<times> 'sub"
  fr_flush :: "'sub \<Rightarrow> (handler_error + unit) poll \<times> 'sub"
  fr_close :: "'sub \<Rightarrow> (handler_error + unit) poll \<times> 'sub"

definition new_handler :: "nat \<Rightarrow> bool \<Rightarrow> 'sub handler" where
  "new_handler max_size temporary =
     \<lparr>hd_max_transmit_size = max_size, hd_outbound = None, hd_inbound = None,
      hd_keep_alive = (if temporary then Keep_No else Keep_Yes), hd_queue = []\<rparr>"

text \<open>\<open>Episub::new_handler\<close>: the handler of a connection the behaviour did not dial itself.\<close>

definition behaviour_new_handler :: "config \<Rightarrow> 'sub handler" where
  "behaviour_new_handler c = new_handler (max_transmit_size c) False"

definition fully_negotiated_inbound :: "'sub \<Rightarrow> 'sub handler \<Rightarrow> 'sub handler" where
  "fully_negotiated_inbound sub h = h\<lparr>hd_inbound := Some (WaitingInput sub)\<rparr>"

definition fully_negotiated_outbound :: "'sub \<Rightarrow> 'sub handler \<Rightarrow> 'sub handler" where
  "fully_negotiated_outbound sub h = h\<lparr>hd_outbound := Some (WaitingOutput sub)\<rparr>"

fun is_shuffle_reply :: "rpc_action option \<Rightarrow> bool" where
  "is_shuffle_reply (Some (ShuffleReply _)) = True"
| "is_shuffle_reply _ = False"

definition handler_inject_event :: "rpc \<Rightarrow> 'sub handler \<Rightarrow> 'sub handler" where
  "handler_inject_event event h =
     (if hd_keep_alive h \<noteq> Keep_Yes then
        if is_shuffle_reply (rpc_action event) then h\<lparr>hd_queue := hd_queue h @ [event]\<rparr> else h
      else h\<lparr>hd_queue := hd_queue h @ [event]\<rparr>)"

definition dial_upgrade_error :: "'sub handler \<Rightarrow> 'sub handler" where
  "dial_upgrade_error h = h"

subsection \<open>The inbound loop\<close>

function process_inbound :: "'sub framed \<Rightarrow> 'sub handler \<Rightarrow> panic + handler_event poll \<times> 'sub handler" where
  "process_inbound io h =
     (case hd_inbound h of
        Some (WaitingInput sub) \<Rightarrow>
          (case fr_next io sub of
             (Ready (Some (Inr m)), sub) \<Rightarrow>
               Inr (Ready (Custom m), h\<lparr>hd_inbound := Some (WaitingInput sub)\<rparr>)
           | (Ready (Some (Inl error)), sub) \<Rightarrow> process_inbound io (h\<lparr>hd_inbound := Some In_Poisoned\<rparr>)
           | (Ready None, sub) \<Rightarrow> process_inbound io (h\<lparr>hd_inbound := Some (In_Closing sub)\<rparr>)
           | (Pending, sub) \<Rightarrow> Inr (Pending, h\<lparr>hd_inbound := Some (WaitingInput sub)\<rparr>))
      | Some (In_Closing sub) \<Rightarrow>
          (case fr_close io sub of
             (Ready res, sub) \<Rightarrow>
               Inr (Pending, h\<lparr>hd_inbound := None,
                               hd_keep_alive := if hd_outbound h = None then Keep_No else hd_keep_alive h\<rparr>)
           | (Pending, sub) \<Rightarrow> Inr (Pending, h\<lparr>hd_inbound := Some (In_Closing sub)\<rparr>))
      | Some In_Poisoned \<Rightarrow> Inl Unreachable
      | None \<Rightarrow> Inr (Pending, h))"
  by pat_completeness auto
termination
  by (relation "measure (\<lambda>(io, h). case hd_inbound h of Some (WaitingInput _) \<Rightarrow> 1 | _ \<Rightarrow> 0)") auto

declare process_inbound.simps [simp del]

subsection \<open>The outbound loop\<close>

text \<open>
  It ends: a message leaves the queue to be sent, is sent, and is flushed, before the next one leaves.
\<close>

fun outbound_rank :: "'sub outbound_state option \<Rightarrow> nat" where
  "outbound_rank (Some (PendingSend _ _)) = 2"
| "outbound_rank (Some (PendingFlush _)) = 1"
| "outbound_rank _ = 0"

function process_outbound :: "'sub framed \<Rightarrow> 'sub handler \<Rightarrow> panic + handler_event poll \<times> 'sub handler" where
  "process_outbound io h =
     (case hd_outbound h of
        Some (WaitingOutput sub) \<Rightarrow>
          (case hd_queue h of
             msg # queue \<Rightarrow>
               process_outbound io (h\<lparr>hd_queue := queue, hd_outbound := Some (PendingSend sub msg)\<rparr>)
           | [] \<Rightarrow> Inr (Pending, h))
      | Some (PendingSend sub message) \<Rightarrow>
          (case fr_ready io sub of
             (Ready (Inr _), sub) \<Rightarrow>
               (case fr_send io sub message of
                  (Inr _, sub) \<Rightarrow> process_outbound io (h\<lparr>hd_outbound := Some (PendingFlush sub)\<rparr>)
                | (Inl MaxTransmissionSize, sub) \<Rightarrow>
                    process_outbound io (h\<lparr>hd_outbound := Some (WaitingOutput sub)\<rparr>)
                | (Inl e, sub) \<Rightarrow> Inr (Ready (Close_Connection e), h\<lparr>hd_outbound := Some Out_Poisoned\<rparr>))
           | (Ready (Inl e), sub) \<Rightarrow>
               Inr (Ready (Close_Connection e), h\<lparr>hd_outbound := Some Out_Poisoned\<rparr>)
           | (Pending, sub) \<Rightarrow>
               Inr (Pending, h\<lparr>hd_keep_alive := Keep_Yes, hd_outbound := Some (PendingSend sub message)\<rparr>))
      | Some (PendingFlush sub) \<Rightarrow>
          (case fr_flush io sub of
             (Ready (Inr _), sub) \<Rightarrow> process_outbound io (h\<lparr>hd_outbound := Some (WaitingOutput sub)\<rparr>)
           | (Ready (Inl e), sub) \<Rightarrow>
               Inr (Ready (Close_Connection e), h\<lparr>hd_outbound := Some Out_Poisoned\<rparr>)
           | (Pending, sub) \<Rightarrow>
               Inr (Pending, h\<lparr>hd_keep_alive := Keep_Yes, hd_outbound := Some (PendingFlush sub)\<rparr>))
      | Some (Out_Closing sub) \<Rightarrow>
          (case fr_close io sub of
             (Ready (Inr _), sub) \<Rightarrow>
               Inr (Pending, h\<lparr>hd_outbound := None,
                               hd_keep_alive := if hd_inbound h = None then Keep_No else hd_keep_alive h\<rparr>)
           | (Ready (Inl e), sub) \<Rightarrow>
               Inr (Ready (Close_Connection (Handler_Io
                      (Io_Error BrokenPipe ''Failed to close outbound substream''))),
                    h\<lparr>hd_outbound := Some Out_Poisoned\<rparr>)
           | (Pending, sub) \<Rightarrow>
               Inr (Pending, h\<lparr>hd_keep_alive := Keep_No, hd_outbound := Some (Out_Closing sub)\<rparr>))
      | Some SubstreamRequested \<Rightarrow> Inr (Pending, h)
      | Some Out_Poisoned \<Rightarrow> Inl Unreachable
      | None \<Rightarrow>
          Inr (Ready (OutboundSubstreamRequest (hd_max_transmit_size h)),
               h\<lparr>hd_outbound := Some SubstreamRequested\<rparr>))"
  by pat_completeness auto
termination
  by (relation "measure (\<lambda>(io, h). 3 * length (hd_queue h) + outbound_rank (hd_outbound h))") auto

declare process_outbound.simps [simp del]

definition poll_handler :: "'sub framed \<Rightarrow> 'sub handler \<Rightarrow> panic + handler_event poll \<times> 'sub handler" where
  "poll_handler io h =
     on_ok (process_inbound io h)
       (\<lambda>(polled, h). if polled \<noteq> Pending then Inr (polled, h) else process_outbound io h)"

end
