(* ===== verification/Handler_Properties.thy ===== *)
theory Handler_Properties
  imports Handler
begin

section \<open>What the connection handler guarantees\<close>

text \<open>
  Messages leave in the order they were queued, none lost or repeated; and three states the handler
  gets into: the panic after an inbound error, the temporary connection that stops being one, and the
  outbound stream that is never requested again.
\<close>

subsection \<open>Order of the outgoing messages\<close>

text \<open>
  What a framed sink does with the messages of a set, over a log that a message extends by its image: the
  message itself, or the bytes it is written as. Only a successful send extends the log, and exactly the
  oversized messages are refused as such. \<open>ok\<close> is an invariant of the stream.
\<close>

definition sink_writes ::
  "'sub framed \<Rightarrow> rpc set \<Rightarrow> ('sub \<Rightarrow> bool) \<Rightarrow> ('sub \<Rightarrow> 'x list) \<Rightarrow> (rpc \<Rightarrow> 'x list) \<Rightarrow> (rpc \<Rightarrow> bool) \<Rightarrow> bool" where
  "sink_writes io M ok wlog img oversized \<longleftrightarrow>
     (\<forall>sub. ok sub \<longrightarrow> ok (snd (fr_ready io sub)) \<and> wlog (snd (fr_ready io sub)) = wlog sub \<and>
        ok (snd (fr_flush io sub)) \<and> wlog (snd (fr_flush io sub)) = wlog sub) \<and>
     (\<forall>sub m. ok sub \<longrightarrow> m \<in> M \<longrightarrow>
        (case fr_send io sub m of
           (Inr _, sub') \<Rightarrow> ok sub' \<and> \<not> oversized m \<and> wlog sub' = wlog sub @ img m
         | (Inl e, sub') \<Rightarrow> e = MaxTransmissionSize \<longrightarrow> ok sub' \<and> oversized m \<and> wlog sub' = wlog sub))"

definition sink_logs :: "'sub framed \<Rightarrow> ('sub \<Rightarrow> rpc list) \<Rightarrow> (rpc \<Rightarrow> bool) \<Rightarrow> bool" where
  "sink_logs io sent oversized \<longleftrightarrow> sink_writes io UNIV (\<lambda>_. True) sent (\<lambda>m. [m]) oversized"

fun out_sub :: "'sub outbound_state option \<Rightarrow> 'sub option" where
  "out_sub (Some (WaitingOutput sub)) = Some sub"
| "out_sub (Some (PendingSend sub m)) = Some sub"
| "out_sub (Some (PendingFlush sub)) = Some sub"
| "out_sub _ = None"

fun in_flight :: "'sub outbound_state option \<Rightarrow> rpc list" where
  "in_flight (Some (PendingSend sub m)) = [m]"
| "in_flight _ = []"

text \<open>The messages of a handler that are still to be sent, in order, and the whole log with them.\<close>

definition to_send :: "'sub handler \<Rightarrow> rpc list" where
  "to_send h = in_flight (hd_outbound h) @ hd_queue h"

definition outgoing :: "('sub \<Rightarrow> 'x list) \<Rightarrow> (rpc \<Rightarrow> 'x list) \<Rightarrow> (rpc \<Rightarrow> bool) \<Rightarrow> 'sub handler \<Rightarrow> 'x list" where
  "outgoing wlog img oversized h =
     (case out_sub (hd_outbound h) of None \<Rightarrow> [] | Some sub \<Rightarrow> wlog sub) @
     concat (map img (filter (\<lambda>m. \<not> oversized m) (to_send h)))"

definition out_ok :: "rpc set \<Rightarrow> ('sub \<Rightarrow> bool) \<Rightarrow> 'sub handler \<Rightarrow> bool" where
  "out_ok M ok h \<longleftrightarrow> (\<exists>sub. out_sub (hd_outbound h) = Some sub \<and> ok sub) \<and> set (to_send h) \<subseteq> M"

lemma process_outbound_keeps:
  assumes "sink_writes io M ok wlog img oversized"
  shows "process_outbound io h = Inr (Pending, h') \<Longrightarrow> out_ok M ok h \<Longrightarrow>
    out_ok M ok h' \<and> outgoing wlog img oversized h' = outgoing wlog img oversized h"
proof (induction "3 * length (hd_queue h) + outbound_rank (hd_outbound h)" arbitrary: h rule: less_induct)
  case less
  note unfold = process_outbound.simps [of io h]
  from less.prems(2) obtain st where st: "hd_outbound h = Some st" by (cases "hd_outbound h") (auto simp: out_ok_def)
  note same = assms [unfolded sink_writes_def, THEN conjunct1, rule_format]
    and sends = assms [unfolded sink_writes_def, THEN conjunct2, rule_format]
  have ready: "ok sub' \<and> wlog sub' = wlog sub" if "fr_ready io sub = (x, sub')" "ok sub" for sub sub' x
    using same [of sub] that by simp
  have flush: "ok sub' \<and> wlog sub' = wlog sub" if "fr_flush io sub = (x, sub')" "ok sub" for sub sub' x
    using same [of sub] that by simp
  have send: "ok sub' \<and> \<not> oversized m \<and> wlog sub' = wlog sub @ img m"
    if "fr_send io sub m = (Inr u, sub')" "ok sub" "m \<in> M" for sub sub' m u
    using sends [of sub m] that by simp
  have refuse: "ok sub' \<and> oversized m \<and> wlog sub' = wlog sub"
    if "fr_send io sub m = (Inl MaxTransmissionSize, sub')" "ok sub" "m \<in> M" for sub sub' m
    using sends [of sub m] that by simp
  have step: "out_ok M ok h' \<and> outgoing wlog img oversized h' = outgoing wlog img oversized h"
    if "process_outbound io g = Inr (Pending, h')" "out_ok M ok g"
      "3 * length (hd_queue g) + outbound_rank (hd_outbound g) < 3 * length (hd_queue h) + outbound_rank (hd_outbound h)"
      "outgoing wlog img oversized g = outgoing wlog img oversized h" for g
    using less.hyps [OF that(3,1,2)] that(4) by simp
  show ?case
  proof (cases st)
    case (WaitingOutput sub)
    show ?thesis
    proof (cases "hd_queue h")
      case Nil
      with less.prems st WaitingOutput show ?thesis by (simp add: unfold)
    next
      case (Cons m q)
      with less.prems st WaitingOutput show ?thesis
        by (intro step [of "h\<lparr>hd_queue := q, hd_outbound := Some (PendingSend sub m)\<rparr>"])
          (simp_all add: unfold out_ok_def outgoing_def to_send_def)
    qed
  next
    case (PendingSend sub m)
    obtain x sub1 where r: "fr_ready io sub = (x, sub1)" by (cases "fr_ready io sub")
    obtain y sub2 where s: "fr_send io sub1 m = (y, sub2)" by (cases "fr_send io sub1 m")
    have ok: "ok sub" "m \<in> M" using less.prems(2) st PendingSend by (simp_all add: out_ok_def to_send_def)
    note r_ok = ready [OF r ok(1)]
    consider "x = Pending" | u where "x = Ready (Inr ())" "y = Inr u"
      | "x = Ready (Inr ())" "y = Inl MaxTransmissionSize"
      using less.prems(1) st PendingSend r s
      by (auto simp: unfold split: poll.splits sum.splits handler_error.splits)
    then show ?thesis
    proof cases
      case 1
      with less.prems st PendingSend r r_ok show ?thesis by (auto simp: unfold out_ok_def outgoing_def to_send_def)
    next
      case (2 u)
      with less.prems st PendingSend r s r_ok send [OF s [unfolded 2] _ ok(2)] show ?thesis
        by (intro step [of "h\<lparr>hd_outbound := Some (PendingFlush sub2)\<rparr>"])
          (simp_all add: unfold out_ok_def outgoing_def to_send_def)
    next
      case 3
      with less.prems st PendingSend r s r_ok refuse [OF s [unfolded 3] _ ok(2)] show ?thesis
        by (intro step [of "h\<lparr>hd_outbound := Some (WaitingOutput sub2)\<rparr>"])
          (simp_all add: unfold out_ok_def outgoing_def to_send_def)
    qed
  next
    case (PendingFlush sub)
    obtain x sub1 where f: "fr_flush io sub = (x, sub1)" by (cases "fr_flush io sub")
    have "ok sub" using less.prems(2) st PendingFlush by (simp add: out_ok_def)
    note f_ok = flush [OF f this]
    consider "x = Pending" | "x = Ready (Inr ())"
      using less.prems(1) st PendingFlush f by (auto simp: unfold split: poll.splits sum.splits)
    then show ?thesis
    proof cases
      case 1
      with less.prems st PendingFlush f f_ok show ?thesis by (auto simp: unfold out_ok_def outgoing_def to_send_def)
    next
      case 2
      with less.prems st PendingFlush f f_ok show ?thesis
        by (intro step [of "h\<lparr>hd_outbound := Some (WaitingOutput sub1)\<rparr>"])
          (simp_all add: unfold out_ok_def outgoing_def to_send_def)
    qed
  qed (use less.prems st in \<open>simp_all add: out_ok_def\<close>)
qed

text \<open>A sink that is never busy and fails on oversized messages only.\<close>

definition sink_ready :: "'sub framed \<Rightarrow> bool" where
  "sink_ready io \<longleftrightarrow>
     (\<forall>sub. fst (fr_ready io sub) = Ready (Inr ()) \<and> fst (fr_flush io sub) = Ready (Inr ())) \<and>
     (\<forall>sub m e. fst (fr_send io sub m) = Inl e \<longrightarrow> e = MaxTransmissionSize)"

lemma process_outbound_drains:
  assumes "sink_ready io"
  shows "out_sub (hd_outbound h) \<noteq> None \<Longrightarrow>
    \<exists>h' sub. process_outbound io h = Inr (Pending, h') \<and> hd_queue h' = [] \<and> hd_outbound h' = Some (WaitingOutput sub)"
proof (induction "3 * length (hd_queue h) + outbound_rank (hd_outbound h)" arbitrary: h rule: less_induct)
  case less
  note unfold = process_outbound.simps [of io h]
  from less.prems obtain st where st: "hd_outbound h = Some st" by (cases "hd_outbound h") auto
  have ready: "\<exists>sub'. fr_ready io sub = (Ready (Inr ()), sub')" "\<exists>sub'. fr_flush io sub = (Ready (Inr ()), sub')" for sub
    using assms unfolding sink_ready_def by (metis prod.collapse)+
  have send: "e = MaxTransmissionSize" if "fr_send io sub m = (Inl e, sub')" for sub m e sub'
    using assms that unfolding sink_ready_def by (metis fst_conv)
  show ?case
  proof (cases st)
    case (WaitingOutput sub)
    then show ?thesis
      using st less.hyps [of "h\<lparr>hd_queue := tl (hd_queue h), hd_outbound := Some (PendingSend sub (hd (hd_queue h)))\<rparr>"]
      by (cases "hd_queue h") (simp_all add: unfold)
  next
    case (PendingSend sub m)
    obtain sub1 where r: "fr_ready io sub = (Ready (Inr ()), sub1)" using ready(1) by blast
    obtain y sub2 where s: "fr_send io sub1 m = (y, sub2)" by (cases "fr_send io sub1 m")
    show ?thesis
    proof (cases y)
      case (Inl e)
      with st PendingSend r s send [OF s [unfolded Inl]] show ?thesis
        using less.hyps [of "h\<lparr>hd_outbound := Some (WaitingOutput sub2)\<rparr>"] by (simp add: unfold)
    next
      case (Inr u)
      with st PendingSend r s show ?thesis
        using less.hyps [of "h\<lparr>hd_outbound := Some (PendingFlush sub2)\<rparr>"] by (simp add: unfold)
    qed
  next
    case (PendingFlush sub)
    obtain sub1 where "fr_flush io sub = (Ready (Inr ()), sub1)" using ready(2) by blast
    with st PendingFlush show ?thesis
      using less.hyps [of "h\<lparr>hd_outbound := Some (WaitingOutput sub1)\<rparr>"] by (simp add: unfold)
  qed (use less.prems st in simp_all)
qed

text \<open>
  C19. Outgoing messages are neither lost nor repeated nor reordered. Whenever the outbound loop stops
  to wait, what the stream has accepted, then the message being sent, then the queue is what it was
  before, up to oversized messages, which are dropped. On a stream that is never busy and fails on
  oversized messages only, the loop sends the whole queue.
\<close>

theorem outbound_fifo:
  assumes "sink_logs io sent oversized" and "out_sub (hd_outbound h) = Some sub"
  shows "(\<forall>h'. process_outbound io h = Inr (Pending, h') \<longrightarrow>
      (\<exists>sub'. out_sub (hd_outbound h') = Some sub' \<and>
        sent sub' @ filter (\<lambda>m. \<not> oversized m) (in_flight (hd_outbound h') @ hd_queue h') =
        sent sub @ filter (\<lambda>m. \<not> oversized m) (in_flight (hd_outbound h) @ hd_queue h))) \<and>
    (sink_ready io \<longrightarrow> (\<exists>h' sub'. process_outbound io h = Inr (Pending, h') \<and>
      hd_queue h' = [] \<and> hd_outbound h' = Some (WaitingOutput sub') \<and>
      sent sub' = sent sub @ filter (\<lambda>m. \<not> oversized m) (in_flight (hd_outbound h) @ hd_queue h)))"
proof -
  have keeps: "\<exists>sub'. out_sub (hd_outbound h') = Some sub' \<and>
        sent sub' @ filter (\<lambda>m. \<not> oversized m) (in_flight (hd_outbound h') @ hd_queue h') =
        sent sub @ filter (\<lambda>m. \<not> oversized m) (in_flight (hd_outbound h) @ hd_queue h)"
    if "process_outbound io h = Inr (Pending, h')" for h'
    using process_outbound_keeps [OF assms(1) [unfolded sink_logs_def] that] assms(2)
    by (auto simp: outgoing_def out_ok_def to_send_def)
  moreover have "\<exists>h' sub'. process_outbound io h = Inr (Pending, h') \<and>
      hd_queue h' = [] \<and> hd_outbound h' = Some (WaitingOutput sub') \<and>
      sent sub' = sent sub @ filter (\<lambda>m. \<not> oversized m) (in_flight (hd_outbound h) @ hd_queue h)"
    if "sink_ready io"
    using process_outbound_drains [OF that, of h] keeps assms(2) by fastforce
  ultimately show ?thesis by blast
qed

text \<open>A concrete sink: the list of the messages sent, refusing a message without action.\<close>

definition list_sink :: "rpc list framed" where
  "list_sink = \<lparr>fr_next = (\<lambda>sub. (Pending, sub)), fr_ready = (\<lambda>sub. (Ready (Inr ()), sub)),
     fr_send = (\<lambda>sub m. if rpc_action m = None then (Inl MaxTransmissionSize, sub) else (Inr (), sub @ [m])),
     fr_flush = (\<lambda>sub. (Ready (Inr ()), sub)), fr_close = (\<lambda>sub. (Ready (Inr ()), sub))\<rparr>"

theorem outbound_fifo_witness:
  "\<exists>h' sub'. process_outbound list_sink
       ((fully_negotiated_outbound [] (new_handler 10 False))
          \<lparr>hd_queue := [rpc_of ''t'' Prune, \<lparr>rpc_topic = ''t'', rpc_action = None\<rparr>, rpc_of ''u'' Prune]\<rparr>)
       = Inr (Pending, h') \<and> hd_outbound h' = Some (WaitingOutput sub') \<and>
     sub' = [rpc_of ''t'' Prune, rpc_of ''u'' Prune]"
proof -
  define h :: "rpc list handler" where "h = (fully_negotiated_outbound [] (new_handler 10 False))
      \<lparr>hd_queue := [rpc_of ''t'' Prune, \<lparr>rpc_topic = ''t'', rpc_action = None\<rparr>, rpc_of ''u'' Prune]\<rparr>"
  have logs: "sink_logs list_sink id (\<lambda>m. rpc_action m = None)" and ready: "sink_ready list_sink"
    by (simp_all add: sink_logs_def sink_writes_def sink_ready_def list_sink_def)
  have "out_sub (hd_outbound h) = Some []" by (simp add: h_def fully_negotiated_outbound_def)
  note fifo = outbound_fifo [OF logs this]
  have "\<exists>h' sub'. process_outbound list_sink h = Inr (Pending, h') \<and>
      hd_queue h' = [] \<and> hd_outbound h' = Some (WaitingOutput sub') \<and>
      id sub' = id [] @ filter (\<lambda>m. rpc_action m \<noteq> None) (in_flight (hd_outbound h) @ hd_queue h)"
    by (rule fifo [THEN conjunct2, rule_format, OF ready])
  then show ?thesis by (force simp: h_def fully_negotiated_outbound_def new_handler_def)
qed

subsection \<open>Failures\<close>

text \<open>
  C37. An error on the inbound stream kills the task. The inbound loop panics exactly when the state
  is poisoned or the stream it waits on reports an error: the error branch leaves the poisoned state in
  place and goes round the loop once more, into the branch meant to be unreachable.
\<close>

theorem inbound_error_panics:
  "process_inbound io h = Inl x \<longleftrightarrow>
     x = Unreachable \<and>
     (hd_inbound h = Some In_Poisoned \<or>
      (\<exists>sub e sub'. hd_inbound h = Some (WaitingInput sub) \<and> fr_next io sub = (Ready (Some (Inl e)), sub')))"
proof -
  have rest: "process_inbound io g = Inl x \<longleftrightarrow> x = Unreachable \<and> hd_inbound g = Some In_Poisoned"
    if "\<nexists>sub. hd_inbound g = Some (WaitingInput sub)" for g
    using that
    by (auto simp: process_inbound.simps [of io g] split: option.split inbound_state.split prod.split poll.split)
  show ?thesis
  proof (cases "\<exists>sub. hd_inbound h = Some (WaitingInput sub)")
    case True
    then obtain sub where sub: "hd_inbound h = Some (WaitingInput sub)" by blast
    show ?thesis
      by (auto simp: process_inbound.simps [of io h] sub rest
          split: prod.split poll.split option.split sum.split)
  next
    case False
    with rest [OF False] show ?thesis by auto
  qed
qed

text \<open>
  Temporary connections. A handler built as temporary queues shuffle replies and nothing else, and
  keeps the connection alive for nobody; but once the outbound loop has to wait for a busy stream with a
  message underway it asks to be kept alive, and from then on queues every message it is given.
\<close>

theorem temporary_connection:
  assumes "hd_keep_alive h = Keep_No"
  shows "hd_queue (handler_inject_event m h) =
      (if is_shuffle_reply (rpc_action m) then hd_queue h @ [m] else hd_queue h) \<and>
    hd_keep_alive (handler_inject_event m h) = Keep_No \<and>
    (\<forall>sub sub' reply h'. hd_outbound h = Some (PendingSend sub reply) \<longrightarrow> fr_ready io sub = (Pending, sub') \<longrightarrow>
       process_outbound io h = Inr (Pending, h') \<longrightarrow>
       hd_keep_alive h' = Keep_Yes \<and> hd_queue (handler_inject_event m h') = hd_queue h' @ [m])"
  using assms by (auto simp: handler_inject_event_def process_outbound.simps [of io h])

definition busy_sink :: "rpc list framed" where
  "busy_sink = list_sink\<lparr>fr_ready := (\<lambda>sub. (Pending, sub))\<rparr>"

theorem temporary_connection_witness:
  "\<exists>h h'. h = (new_handler 10 True)\<lparr>hd_outbound := Some (PendingSend [] (rpc_of ''t'' (ShuffleReply [])))\<rparr> \<and>
     process_outbound busy_sink h = Inr (Pending, h') \<and> hd_keep_alive h' = Keep_Yes"
proof -
  define h :: "rpc list handler"
    where "h = (new_handler 10 True)\<lparr>hd_outbound := Some (PendingSend [] (rpc_of ''t'' (ShuffleReply [])))\<rparr>"
  have busy: "fr_ready busy_sink [] = (Pending, [])" by (simp add: busy_sink_def)
  then obtain h' where "process_outbound busy_sink h = Inr (Pending, h')"
    using process_outbound.simps [of busy_sink h] by (simp add: h_def)
  with temporary_connection [of h m busy_sink] busy show ?thesis
    by (fastforce simp: h_def new_handler_def)
qed

text \<open>
  The outbound stream is asked for once. The first poll of a handler without one requests it; if the
  upgrade then fails, the handler is told so and changes nothing: no later poll, with an inbound side
  that has nothing to say, requests it again or sends anything, and the queue only grows.
\<close>

theorem stuck_after_upgrade_error:
  assumes "hd_outbound h = None" and "hd_inbound h = None"
  shows "\<exists>h'. poll_handler io h = Inr (Ready (OutboundSubstreamRequest (hd_max_transmit_size h)), h') \<and>
    (let stuck = fold handler_inject_event ms (dial_upgrade_error h') in
       poll_handler io stuck = Inr (Pending, stuck) \<and>
       (hd_keep_alive h = Keep_Yes \<longrightarrow> hd_queue stuck = hd_queue h @ ms))"
proof -
  define h' where "h' = h\<lparr>hd_outbound := Some SubstreamRequested\<rparr>"
  have first: "poll_handler io h = Inr (Ready (OutboundSubstreamRequest (hd_max_transmit_size h)), h')"
    using assms by (simp add: poll_handler_def process_inbound.simps [of io h] process_outbound.simps [of io h] h'_def)
  have "hd_outbound (fold handler_inject_event ms g) = hd_outbound g \<and>
      hd_inbound (fold handler_inject_event ms g) = hd_inbound g \<and>
      (hd_keep_alive g = Keep_Yes \<longrightarrow> hd_queue (fold handler_inject_event ms g) = hd_queue g @ ms)"
    for g :: "'a handler"
    by (induction ms arbitrary: g) (auto simp: handler_inject_event_def)
  from this [of h'] assms(2) first show ?thesis
    by (intro exI [of _ h'])
      (simp add: Let_def dial_upgrade_error_def h'_def poll_handler_def process_inbound.simps
        process_outbound.simps)
qed

theorem stuck_after_upgrade_error_witness:
  "\<exists>h'. poll_handler list_sink (new_handler 10 False) = Inr (Ready (OutboundSubstreamRequest 10), h') \<and>
     (let stuck = fold handler_inject_event [rpc_of ''t'' Prune] (dial_upgrade_error h')
      in poll_handler list_sink stuck = Inr (Pending, stuck))"
  using stuck_after_upgrade_error [of "new_handler 10 False" list_sink "[rpc_of ''t'' Prune]"]
  by (auto simp: new_handler_def Let_def)

end
