(* ===== verification/Codec.thy ===== *)
theory Codec
  imports Handler
begin

section \<open>Framing of messages on a substream\<close>

text \<open>
  \<open>src/src/network/episub/codec.rs\<close> and \<open>connection.rs\<close>: a message is the protobuf encoding of an
  \<open>Rpc\<close> behind a length prefix. The length codec is \<open>UviBytes\<close> of the unsigned_varint crate and the
  protobuf code is what prost generates from \<open>rpc.proto\<close>; both are parameters. A \<open>UviBytes\<close> keeps
  state between calls and both of its operations change the buffer they get, so each returns the
  codec and the buffer after the call.
\<close>

record 'c uvi =
  uvi_default :: 'c
  uvi_set_max_len :: "nat \<Rightarrow> 'c \<Rightarrow> 'c"
  uvi_encode :: "'c \<Rightarrow> bytes \<Rightarrow> bytes \<Rightarrow> (io_error + unit) \<times> 'c \<times> bytes"
  uvi_decode :: "'c \<Rightarrow> bytes \<Rightarrow> (io_error + bytes option) \<times> 'c \<times> bytes"

text \<open>
  \<open>prost::Message\<close>: an encoder that can run out of buffer, a decoder, and the conversion of its
  error to an \<open>io::Error\<close>.
\<close>

record prost =
  prost_encode :: "rpc \<Rightarrow> bytes option"
  prost_decode :: "bytes \<Rightarrow> string + rpc"
  prost_io_error :: "string \<Rightarrow> io_error"

record 'c episub_codec =
  length_codec :: 'c

definition codec_new :: "'c \<Rightarrow> 'c episub_codec" where
  "codec_new c = \<lparr>length_codec = c\<rparr>"

definition codec_encode ::
  "'c uvi \<Rightarrow> prost \<Rightarrow> 'c episub_codec \<Rightarrow> rpc \<Rightarrow> bytes \<Rightarrow>
   panic + (handler_error + unit) \<times> 'c episub_codec \<times> bytes" where
  "codec_encode u pr cd item dst =
     (case prost_encode pr item of
        None \<Rightarrow> Inl Expect_Failed
      | Some buf \<Rightarrow>
          (case uvi_encode u (length_codec cd) buf dst of
             (Inl _, c, dst) \<Rightarrow> Inr (Inl MaxTransmissionSize, cd\<lparr>length_codec := c\<rparr>, dst)
           | (Inr _, c, dst) \<Rightarrow> Inr (Inr (), cd\<lparr>length_codec := c\<rparr>, dst)))"

fun io_kind :: "io_error \<Rightarrow> io_error_kind" where
  "io_kind (Io_Error k _) = k"

definition length_error :: "io_error \<Rightarrow> handler_error" where
  "length_error e = (if io_kind e = PermissionDenied then MaxTransmissionSize else Handler_Io e)"

definition codec_decode ::
  "'c uvi \<Rightarrow> prost \<Rightarrow> 'c episub_codec \<Rightarrow> bytes \<Rightarrow>
   (handler_error + rpc option) \<times> 'c episub_codec \<times> bytes" where
  "codec_decode u pr cd src =
     (case uvi_decode u (length_codec cd) src of
        (Inl e, c, src) \<Rightarrow> (Inl (length_error e), cd\<lparr>length_codec := c\<rparr>, src)
      | (Inr None, c, src) \<Rightarrow> (Inr None, cd\<lparr>length_codec := c\<rparr>, src)
      | (Inr (Some packet), c, src) \<Rightarrow>
          (case prost_decode pr packet of
             Inl e \<Rightarrow> (Inl (Handler_Io (prost_io_error pr e)), cd\<lparr>length_codec := c\<rparr>, src)
           | Inr m \<Rightarrow> (Inr (Some m), cd\<lparr>length_codec := c\<rparr>, src)))"

subsection \<open>The protocol upgrade\<close>

record episub_connection =
  conn_max_transmit_size :: nat

definition connection_new :: "nat \<Rightarrow> episub_connection" where
  "connection_new limit = \<lparr>conn_max_transmit_size = limit\<rparr>"

definition protocol_info :: "episub_connection \<Rightarrow> string list" where
  "protocol_info c = [''/episub/1.0.0'']"

text \<open>The handler's \<open>listen_protocol\<close>, offered to the remote and used to open the outbound substream.\<close>

definition listen_protocol :: "'sub handler \<Rightarrow> episub_connection" where
  "listen_protocol h = connection_new (hd_max_transmit_size h)"

text \<open>Both directions build the codec of the substream alike, from the limit of the connection.\<close>

definition upgrade_inbound :: "'c uvi \<Rightarrow> episub_connection \<Rightarrow> 'c episub_codec" where
  "upgrade_inbound u c = codec_new (uvi_set_max_len u (conn_max_transmit_size c) (uvi_default u))"

definition upgrade_outbound :: "'c uvi \<Rightarrow> episub_connection \<Rightarrow> 'c episub_codec" where
  "upgrade_outbound u c = codec_new (uvi_set_max_len u (conn_max_transmit_size c) (uvi_default u))"

subsection \<open>What the two crates document\<close>

text \<open>
  A frame is a nonempty byte string that depends on its payload only. The codec holds the bytes it
  took from the buffer without having delivered them. It encodes a payload up to its limit and
  refuses a longer one as \<open>PermissionDenied\<close>, the buffer untouched; it delivers a frame that is
  there in full, asks for more when only a part of one is there, and refuses one above its limit as
  \<open>PermissionDenied\<close>.
\<close>

definition uvi_encodes :: "'c uvi \<Rightarrow> (bytes \<Rightarrow> bytes) \<Rightarrow> ('c \<Rightarrow> nat) \<Rightarrow> ('c \<Rightarrow> bytes) \<Rightarrow> bool" where
  "uvi_encodes u frame limit held \<longleftrightarrow>
     (\<forall>c x dst.
        (if length x \<le> limit c
         then \<exists>c'. uvi_encode u c x dst = (Inr (), c', dst @ frame x) \<and>
                   limit c' = limit c \<and> held c' = held c
         else \<exists>c' s. uvi_encode u c x dst = (Inl (Io_Error PermissionDenied s), c', dst) \<and>
                   limit c' = limit c \<and> held c' = held c))"

definition uvi_delivers :: "'c uvi \<Rightarrow> (bytes \<Rightarrow> bytes) \<Rightarrow> ('c \<Rightarrow> nat) \<Rightarrow> ('c \<Rightarrow> bytes) \<Rightarrow> bool" where
  "uvi_delivers u frame limit held \<longleftrightarrow>
     (\<forall>c src x rest. held c @ src = frame x @ rest \<longrightarrow>
        (if length x \<le> limit c
         then \<exists>c' src'. uvi_decode u c src = (Inr (Some x), c', src') \<and>
                        held c' @ src' = rest \<and> limit c' = limit c
         else \<exists>c' src' s. uvi_decode u c src = (Inl (Io_Error PermissionDenied s), c', src')))"

definition uvi_waits :: "'c uvi \<Rightarrow> (bytes \<Rightarrow> bytes) \<Rightarrow> ('c \<Rightarrow> nat) \<Rightarrow> ('c \<Rightarrow> bytes) \<Rightarrow> bool" where
  "uvi_waits u frame limit held \<longleftrightarrow>
     (\<forall>c src x rest. held c @ src @ rest = frame x \<and> rest \<noteq> [] \<and> length x \<le> limit c \<longrightarrow>
        (\<exists>c' src'. uvi_decode u c src = (Inr None, c', src') \<and>
                   held c' @ src' = held c @ src \<and> limit c' = limit c))"

definition uvi_starts :: "'c uvi \<Rightarrow> (bytes \<Rightarrow> bytes) \<Rightarrow> ('c \<Rightarrow> nat) \<Rightarrow> ('c \<Rightarrow> bytes) \<Rightarrow> bool" where
  "uvi_starts u frame limit held \<longleftrightarrow>
     (\<forall>n. limit (uvi_set_max_len u n (uvi_default u)) = n \<and>
          held (uvi_set_max_len u n (uvi_default u)) = []) \<and>
     (\<forall>x. frame x \<noteq> [])"

definition uvi_ok :: "'c uvi \<Rightarrow> (bytes \<Rightarrow> bytes) \<Rightarrow> ('c \<Rightarrow> nat) \<Rightarrow> ('c \<Rightarrow> bytes) \<Rightarrow> bool" where
  "uvi_ok u frame limit held \<longleftrightarrow>
     uvi_encodes u frame limit held \<and> uvi_delivers u frame limit held \<and>
     uvi_waits u frame limit held \<and> uvi_starts u frame limit held"

text \<open>
  A growing buffer never runs out, and prost decodes what it encoded; stated of the messages in use.
\<close>

definition prost_ok :: "prost \<Rightarrow> (rpc \<Rightarrow> bytes) \<Rightarrow> rpc set \<Rightarrow> bool" where
  "prost_ok pr enc M \<longleftrightarrow>
     (\<forall>m \<in> M. prost_encode pr m = Some (enc m) \<and> prost_decode pr (enc m) = Inr m)"

subsection \<open>One call\<close>

lemma codec_encode_fits:
  assumes "uvi_ok u frame limit held" and "prost_ok pr enc M" and "m \<in> M"
    and "length (enc m) \<le> limit (length_codec cd)"
  obtains cd' where "codec_encode u pr cd m dst = Inr (Inr (), cd', dst @ frame (enc m))"
    and "limit (length_codec cd') = limit (length_codec cd)"
    and "held (length_codec cd') = held (length_codec cd)"
proof -
  from assms obtain c' where "uvi_encode u (length_codec cd) (enc m) dst = (Inr (), c', dst @ frame (enc m))"
    "limit c' = limit (length_codec cd)" "held c' = held (length_codec cd)"
    unfolding uvi_ok_def uvi_encodes_def by metis
  with assms(2,3) show thesis
    by (intro that [of "cd\<lparr>length_codec := c'\<rparr>"]) (simp_all add: codec_encode_def prost_ok_def)
qed

lemma codec_decode_frame:
  assumes "uvi_ok u frame limit held" and "prost_ok pr enc M" and "m \<in> M"
    and "held (length_codec cd) @ src = frame (enc m) @ rest"
    and "length (enc m) \<le> limit (length_codec cd)"
  obtains cd' src' where "codec_decode u pr cd src = (Inr (Some m), cd', src')"
    and "held (length_codec cd') @ src' = rest"
    and "limit (length_codec cd') = limit (length_codec cd)"
proof -
  from assms obtain c' src' where "uvi_decode u (length_codec cd) src = (Inr (Some (enc m)), c', src')"
    "held c' @ src' = rest" "limit c' = limit (length_codec cd)"
    unfolding uvi_ok_def uvi_delivers_def by metis
  with assms(2,3) show thesis
    by (intro that [of "cd\<lparr>length_codec := c'\<rparr>" src']) (simp_all add: codec_decode_def prost_ok_def)
qed

lemma codec_decode_waits:
  assumes "uvi_ok u frame limit held"
    and "held (length_codec cd) @ src @ rest = frame x" and "rest \<noteq> []"
    and "length x \<le> limit (length_codec cd)"
  obtains cd' src' where "codec_decode u pr cd src = (Inr None, cd', src')"
    and "held (length_codec cd') @ src' = held (length_codec cd) @ src"
    and "limit (length_codec cd') = limit (length_codec cd)"
proof -
  from assms obtain c' src' where "uvi_decode u (length_codec cd) src = (Inr None, c', src')"
    "held c' @ src' = held (length_codec cd) @ src" "limit c' = limit (length_codec cd)"
    unfolding uvi_ok_def uvi_waits_def by metis
  then show thesis
    by (intro that [of "cd\<lparr>length_codec := c'\<rparr>" src']) (simp_all add: codec_decode_def)
qed

end
