(* ===== verification/Codec_Properties.thy ===== *)
theory Codec_Properties
  imports Codec
begin

section \<open>Properties of the framing\<close>

text \<open>
  A stream of messages written by one end and read by the other, in whatever pieces the bytes
  arrive and however often the decoder is called in between; and what both ends refuse.
\<close>

subsection \<open>A stream\<close>

text \<open>
  The sender encodes its messages into one buffer. As the handler does, it goes on with the next
  message after one is refused.
\<close>

fun encode_stream ::
  "'c uvi \<Rightarrow> prost \<Rightarrow> 'c episub_codec \<Rightarrow> bytes \<Rightarrow> rpc list \<Rightarrow> panic + 'c episub_codec \<times> bytes" where
  "encode_stream u pr cd dst [] = Inr (cd, dst)"
| "encode_stream u pr cd dst (m # ms) =
     on_ok (codec_encode u pr cd m dst) (\<lambda>(_, cd, dst). encode_stream u pr cd dst ms)"

record 'c receiver =
  rx_codec :: "'c episub_codec"
  rx_buffer :: bytes
  rx_wire :: bytes
  rx_results :: "(handler_error + rpc option) list"

datatype receive_op = Arrive nat | Decode_Call

fun receive_step :: "'c uvi \<Rightarrow> prost \<Rightarrow> 'c receiver \<Rightarrow> receive_op \<Rightarrow> 'c receiver" where
  "receive_step u pr rx (Arrive n) =
     rx\<lparr>rx_buffer := rx_buffer rx @ take n (rx_wire rx), rx_wire := drop n (rx_wire rx)\<rparr>"
| "receive_step u pr rx Decode_Call =
     (case codec_decode u pr (rx_codec rx) (rx_buffer rx) of
        (r, cd, src) \<Rightarrow> rx\<lparr>rx_codec := cd, rx_buffer := src, rx_results := rx_results rx @ [r]\<rparr>)"

definition receive_run :: "'c uvi \<Rightarrow> prost \<Rightarrow> 'c receiver \<Rightarrow> receive_op list \<Rightarrow> 'c receiver" where
  "receive_run u pr = foldl (receive_step u pr)"

definition receiver_start :: "'c episub_codec \<Rightarrow> bytes \<Rightarrow> 'c receiver" where
  "receiver_start cd wire = \<lparr>rx_codec = cd, rx_buffer = [], rx_wire = wire, rx_results = []\<rparr>"

definition received :: "'c receiver \<Rightarrow> rpc list" where
  "received rx =
     List.map_filter (\<lambda>r. case r of Inr (Some m) \<Rightarrow> Some m | _ \<Rightarrow> None) (rx_results rx)"

definition error_free :: "'c receiver \<Rightarrow> bool" where
  "error_free rx \<longleftrightarrow> (\<forall>e. Inl e \<notin> set (rx_results rx))"

lemma map_filter_append: "List.map_filter f (xs @ ys) = List.map_filter f xs @ List.map_filter f ys"
  by (induction xs) (auto simp: List.map_filter_simps split: option.splits)

lemma received_snoc:
  "received (rx\<lparr>rx_codec := cd, rx_buffer := b, rx_results := rx_results rx @ [Inr (Some m)]\<rparr>) = received rx @ [m]"
  "received (rx\<lparr>rx_codec := cd, rx_buffer := b, rx_results := rx_results rx @ [Inr None]\<rparr>) = received rx"
  by (simp_all add: received_def map_filter_append List.map_filter_simps)

subsection \<open>The sender\<close>

lemma codec_encode_oversized:
  assumes "uvi_ok u frame limit held" and "prost_ok pr enc M" and "m \<in> M"
    and "\<not> length (enc m) \<le> limit (length_codec cd)"
  obtains cd' where "codec_encode u pr cd m dst = Inr (Inl MaxTransmissionSize, cd', dst)"
    and "limit (length_codec cd') = limit (length_codec cd)"
proof -
  from assms obtain c' s where
    "uvi_encode u (length_codec cd) (enc m) dst = (Inl (Io_Error PermissionDenied s), c', dst)"
    "limit c' = limit (length_codec cd)"
    unfolding uvi_ok_def uvi_encodes_def by metis
  with assms(2,3) show thesis
    by (intro that [of "cd\<lparr>length_codec := c'\<rparr>"]) (simp_all add: codec_encode_def prost_ok_def)
qed

lemma encode_stream_ok:
  assumes "uvi_ok u frame limit held" and "prost_ok pr enc M" and "set ms \<subseteq> M"
    and "limit (length_codec cd) = n"
  shows "\<exists>cd'. encode_stream u pr cd dst ms =
    Inr (cd', dst @ concat (map (\<lambda>m. frame (enc m)) (filter (\<lambda>m. length (enc m) \<le> n) ms)))"
  using assms(3,4)
proof (induction ms arbitrary: cd dst)
  case (Cons m ms)
  show ?case
  proof (cases "length (enc m) \<le> n")
    case True
    with Cons.prems obtain cd' where cd': "codec_encode u pr cd m dst = Inr (Inr (), cd', dst @ frame (enc m))"
      "limit (length_codec cd') = n"
      by (metis codec_encode_fits [OF assms(1,2)] list.set_intros(1) subsetD)
    with Cons.IH [of cd' "dst @ frame (enc m)"] True Cons.prems(1) show ?thesis by simp
  next
    case False
    with Cons.prems obtain cd' where cd': "codec_encode u pr cd m dst = Inr (Inl MaxTransmissionSize, cd', dst)"
      "limit (length_codec cd') = n"
      by (metis codec_encode_oversized [OF assms(1,2)] list.set_intros(1) subsetD)
    with Cons.IH [of cd' dst] False Cons.prems(1) show ?thesis by simp
  qed
qed simp

subsection \<open>The receiver\<close>

definition rx_inv ::
  "(bytes \<Rightarrow> bytes) \<Rightarrow> ('c \<Rightarrow> nat) \<Rightarrow> ('c \<Rightarrow> bytes) \<Rightarrow> (rpc \<Rightarrow> bytes) \<Rightarrow> nat \<Rightarrow> rpc list \<Rightarrow>
   'c receiver \<Rightarrow> rpc list \<Rightarrow> bool" where
  "rx_inv frame limit held enc n fs rx todo \<longleftrightarrow>
     fs = received rx @ todo \<and> error_free rx \<and> limit (length_codec (rx_codec rx)) = n \<and>
     held (length_codec (rx_codec rx)) @ rx_buffer rx @ rx_wire rx =
       concat (map (\<lambda>m. frame (enc m)) todo)"

lemma rx_invD:
  assumes "rx_inv frame limit held enc n fs rx todo"
  shows "received rx @ todo = fs" "error_free rx"
  using assms by (simp_all add: rx_inv_def)

lemma rx_inv_arrive:
  assumes "rx_inv frame limit held enc n fs rx todo"
  shows "rx_inv frame limit held enc n fs (receive_step u pr rx (Arrive k)) todo"
  using assms by (simp add: rx_inv_def received_def error_free_def)

lemma rx_inv_waits:
  assumes "uvi_ok u frame limit held" and "rx_inv frame limit held enc n fs rx todo"
    and "held (length_codec (rx_codec rx)) @ rx_buffer rx @ t = frame x" and "t \<noteq> []" and "length x \<le> n"
  shows "rx_inv frame limit held enc n fs (receive_step u pr rx Decode_Call) todo"
proof -
  from assms obtain cd' src' where "codec_decode u pr (rx_codec rx) (rx_buffer rx) = (Inr None, cd', src')"
    "held (length_codec cd') @ src' = held (length_codec (rx_codec rx)) @ rx_buffer rx"
    "limit (length_codec cd') = n"
    using codec_decode_waits [OF assms(1), of "rx_codec rx" "rx_buffer rx" t x pr]
    by (metis rx_inv_def)
  with assms(2) show ?thesis
    by (simp add: rx_inv_def received_snoc) (simp add: error_free_def flip: append_assoc)
qed

lemma rx_inv_delivers:
  assumes "uvi_ok u frame limit held" and "prost_ok pr enc M" and "m \<in> M"
    and "rx_inv frame limit held enc n fs rx (m # todo)"
    and "held (length_codec (rx_codec rx)) @ rx_buffer rx = frame (enc m) @ t" and "length (enc m) \<le> n"
  shows "rx_inv frame limit held enc n fs (receive_step u pr rx Decode_Call) todo"
proof -
  from assms obtain cd' src' where "codec_decode u pr (rx_codec rx) (rx_buffer rx) = (Inr (Some m), cd', src')"
    "held (length_codec cd') @ src' = t" "limit (length_codec cd') = n"
    using codec_decode_frame [OF assms(1-3), of "rx_codec rx" "rx_buffer rx" t] by (metis rx_inv_def)
  moreover have "t @ rx_wire rx = concat (map (\<lambda>m. frame (enc m)) todo)"
  proof -
    have "(held (length_codec (rx_codec rx)) @ rx_buffer rx) @ rx_wire rx =
      concat (map (\<lambda>m. frame (enc m)) (m # todo))"
      using assms(4) by (simp add: rx_inv_def)
    with assms(5) show ?thesis by simp
  qed
  ultimately show ?thesis using assms(4)
    by (simp add: rx_inv_def received_snoc) (auto simp: error_free_def simp flip: append_assoc)
qed

lemma frame_here_or_partial:
  assumes "s @ w = f @ r"
  obtains t where "s = f @ t" | t where "s @ t = f" "t \<noteq> []" "w \<noteq> []"
  using assms by (auto simp: append_eq_append_conv2) (metis append_Nil2)

lemma rx_inv_decode:
  assumes u: "uvi_ok u frame limit held" and p: "prost_ok pr enc (set fs)"
    and inv: "rx_inv frame limit held enc n fs rx todo" and fit: "\<And>m. m \<in> set fs \<Longrightarrow> length (enc m) \<le> n"
  shows "\<exists>todo'. rx_inv frame limit held enc n fs (receive_step u pr rx Decode_Call) todo' \<and>
    (todo' = todo \<or> (\<exists>m. todo = m # todo')) \<and> (rx_wire rx = [] \<longrightarrow> todo' = tl todo)"
proof (cases todo)
  case Nil
  moreover have "frame [] \<noteq> []" using u by (simp add: uvi_ok_def uvi_starts_def)
  ultimately show ?thesis using inv rx_inv_waits [OF u inv, of "frame []" "[]" pr]
    by (auto simp: rx_inv_def)
next
  case (Cons m ms)
  let ?s = "held (length_codec (rx_codec rx)) @ rx_buffer rx"
  have m: "m \<in> set fs" "length (enc m) \<le> n" using fit inv Cons by (simp_all add: rx_inv_def)
  have "?s @ rx_wire rx = frame (enc m) @ concat (map (\<lambda>m. frame (enc m)) ms)"
    using inv Cons by (simp add: rx_inv_def)
  then show ?thesis
  proof (cases rule: frame_here_or_partial)
    case 1
    from rx_inv_delivers [OF u p m(1) inv [unfolded Cons] 1 m(2)] Cons show ?thesis by auto
  next
    case 2
    from rx_inv_waits [OF u inv _ 2(2) m(2)] 2 show ?thesis by auto
  qed
qed

lemma rx_inv_run:
  assumes u: "uvi_ok u frame limit held" and p: "prost_ok pr enc (set fs)"
    and fit: "\<And>m. m \<in> set fs \<Longrightarrow> length (enc m) \<le> n"
    and "rx_inv frame limit held enc n fs rx todo"
  shows "\<exists>todo'. rx_inv frame limit held enc n fs (receive_run u pr rx ops) todo'"
  using assms(4)
proof (induction ops arbitrary: rx todo)
  case Nil
  then show ?case by (auto simp: receive_run_def)
next
  case (Cons op ops)
  from Cons.prems have "\<exists>todo'. rx_inv frame limit held enc n fs (receive_step u pr rx op) todo'"
    by (cases op) (use rx_inv_arrive rx_inv_decode [OF u p _ fit] in blast)+
  with Cons.IH show ?case by (fastforce simp: receive_run_def)
qed

lemma decode_wire [simp]: "rx_wire (receive_step u pr rx Decode_Call) = rx_wire rx"
  by (simp add: split_beta)

lemma rx_inv_drain:
  assumes u: "uvi_ok u frame limit held" and p: "prost_ok pr enc (set fs)"
    and fit: "\<And>m. m \<in> set fs \<Longrightarrow> length (enc m) \<le> n"
    and "rx_inv frame limit held enc n fs rx todo" and "rx_wire rx = []" and "length todo \<le> k"
  shows "rx_inv frame limit held enc n fs (receive_run u pr rx (replicate k Decode_Call)) []"
  using assms(4-)
proof (induction k arbitrary: rx todo)
  case 0
  then show ?case by (simp add: receive_run_def)
next
  case (Suc k)
  from rx_inv_decode [OF u p Suc.prems(1) fit] Suc.prems(2)
  have "rx_inv frame limit held enc n fs (receive_step u pr rx Decode_Call) (tl todo)" by auto
  moreover have "length (tl todo) \<le> k" using Suc.prems(3) by simp
  ultimately show ?case
    using Suc.IH [of "receive_step u pr rx Decode_Call" "tl todo"] Suc.prems(2)
    by (simp add: receive_run_def del: receive_step.simps)
qed

subsection \<open>A concrete length codec\<close>

text \<open>
  For evaluating the model: a length is written in unary, as so many ones and a zero. The state is
  the limit.
\<close>

definition toy_frame :: "bytes \<Rightarrow> bytes" where
  "toy_frame x = replicate (length x) 1 @ 0 # x"

definition toy_uvi :: "nat uvi" where
  "toy_uvi =
     \<lparr>uvi_default = 128, uvi_set_max_len = (\<lambda>n c. n),
      uvi_encode = (\<lambda>c x dst.
        if length x \<le> c then (Inr (), c, dst @ toy_frame x)
        else (Inl (Io_Error PermissionDenied ''len > max''), c, dst)),
      uvi_decode = (\<lambda>c src.
        let n = length (takeWhile (\<lambda>b. b = 1) src) in
        case dropWhile (\<lambda>b. b = 1) src of
          [] \<Rightarrow> (Inr None, c, src)
        | _ # body \<Rightarrow>
            if c < n then (Inl (Io_Error PermissionDenied ''len > max''), c, src)
            else if length body < n then (Inr None, c, src)
            else (Inr (Some (take n body)), c, drop n body))\<rparr>"

lemma toy_frame_prefix:
  "takeWhile (\<lambda>b. b = 1) (replicate n (1::u8) @ 0 # y) = replicate n 1"
  "dropWhile (\<lambda>b. b = 1) (replicate n (1::u8) @ 0 # y) = 0 # y"
  by (induction n) auto

lemma toy_frame_cut:
  assumes "src @ rest = toy_frame x" and "rest \<noteq> []"
  obtains "dropWhile (\<lambda>b. b = 1) src = []" | y where "src = replicate (length x) 1 @ 0 # y" "length y < length x"
proof -
  from assms(1) obtain t where
    "src = replicate (length x) 1 @ t \<and> t @ rest = 0 # x \<or> src @ t = replicate (length x) 1"
    unfolding toy_frame_def by (auto simp: append_eq_append_conv2)
  then show thesis
  proof (elim disjE)
    assume t: "src = replicate (length x) 1 @ t \<and> t @ rest = 0 # x"
    show thesis
    proof (cases t)
      case Nil
      with t that(1) show thesis by (simp add: dropWhile_eq_Nil_conv)
    next
      case (Cons a y)
      with t have "src = replicate (length x) 1 @ 0 # y" "x = y @ rest" by auto
      with assms(2) that(2) [of y] show thesis by simp
    qed
  next
    assume "src @ t = replicate (length x) 1"
    then have "\<forall>b \<in> set src. b = 1" by (metis Un_iff in_set_replicate set_append)
    with that(1) show thesis by (simp add: dropWhile_eq_Nil_conv)
  qed
qed

lemma toy_uvi_ok: "uvi_ok toy_uvi toy_frame (\<lambda>c. c) (\<lambda>_. [])"
proof -
  have "uvi_delivers toy_uvi toy_frame (\<lambda>c. c) (\<lambda>_. [])"
    by (auto simp: uvi_delivers_def toy_uvi_def toy_frame_def toy_frame_prefix Let_def)
  moreover have "uvi_waits toy_uvi toy_frame (\<lambda>c. c) (\<lambda>_. [])"
    unfolding uvi_waits_def
  proof (intro allI impI)
    fix c src x rest
    assume a: "([]::bytes) @ src @ rest = toy_frame x \<and> rest \<noteq> [] \<and> length x \<le> c"
    then have "src @ rest = toy_frame x" "rest \<noteq> []" by simp_all
    then have "uvi_decode toy_uvi c src = (Inr None, c, src)"
    proof (cases rule: toy_frame_cut)
      case 1
      then show ?thesis by (simp add: toy_uvi_def Let_def del: dropWhile_eq_Nil_conv)
    next
      case 2
      with a show ?thesis by (simp add: toy_uvi_def toy_frame_prefix Let_def)
    qed
    then show "\<exists>c' src'. uvi_decode toy_uvi c src = (Inr None, c', src') \<and>
      ([]::bytes) @ src' = [] @ src \<and> c' = c" by simp
  qed
  moreover have "uvi_encodes toy_uvi toy_frame (\<lambda>c. c) (\<lambda>_. [])"
    by (simp add: uvi_encodes_def toy_uvi_def)
  moreover have "uvi_starts toy_uvi toy_frame (\<lambda>c. c) (\<lambda>_. [])"
    by (simp add: uvi_starts_def toy_uvi_def toy_frame_def)
  ultimately show ?thesis by (simp add: uvi_ok_def)
qed

text \<open>A concrete message codec: the topic's characters, for \<open>Prune\<close> messages.\<close>

definition toy_enc :: "rpc \<Rightarrow> bytes" where
  "toy_enc m = map (\<lambda>c. word_of_nat (of_char c)) (rpc_topic m)"

definition toy_prost :: prost where
  "toy_prost =
     \<lparr>prost_encode = (\<lambda>m. Some (toy_enc m)),
      prost_decode = (\<lambda>b. Inr (rpc_of (map (\<lambda>w. char_of (unat w)) b) Prune)),
      prost_io_error = (\<lambda>s. Io_Error Other_Kind s)\<rparr>"

lemma toy_prost_ok: "prost_ok toy_prost toy_enc {m. rpc_action m = Some Prune}"
proof -
  have "rpc_of (rpc_topic m) Prune = m" if "rpc_action m = Some Prune" for m :: rpc
    using that by (cases m) (simp add: rpc_of_def)
  moreover have "char_of (unat (word_of_nat (of_char c) :: u8)) = c" for c
    by (simp add: unat_of_nat)
  ultimately show ?thesis
    by (simp add: prost_ok_def toy_prost_def toy_enc_def comp_def)
qed

lemma prost_ok_mono: "prost_ok pr enc M \<Longrightarrow> N \<subseteq> M \<Longrightarrow> prost_ok pr enc N"
  by (auto simp: prost_ok_def)

subsection \<open>The properties\<close>

lemma upgrade_limit:
  assumes "uvi_ok u frame limit held"
  shows "limit (length_codec (upgrade_inbound u (connection_new n))) = n"
    "limit (length_codec (upgrade_outbound u (connection_new n))) = n"
    "held (length_codec (upgrade_inbound u (connection_new n))) = []"
  using assms
  by (simp_all add: uvi_ok_def uvi_starts_def upgrade_inbound_def upgrade_outbound_def codec_new_def
      connection_new_def)

definition sendable :: "(rpc \<Rightarrow> bytes) \<Rightarrow> nat \<Rightarrow> rpc list \<Rightarrow> rpc list" where
  "sendable enc n ms = filter (\<lambda>m. length (enc m) \<le> n) ms"

text \<open>
  C17. A stream of messages round-trips: the sender's encoder never panics, and writes one frame for
  each message within its limit. However those bytes are cut into pieces, and however the decoder is
  called between their arrivals, a receiver whose limit is the same as the sender's meets no error and gets those
  messages in order and once each; when all bytes have arrived, as many more calls as there are
  messages deliver what is left.
\<close>
theorem stream_roundtrip:
  assumes "uvi_ok u frame limit held" and "prost_ok pr enc (set ms)"
  shows "\<exists>cd wire. encode_stream u pr (upgrade_outbound u (connection_new n)) [] ms = Inr (cd, wire) \<and>
    (\<forall>ops. let rx = receive_run u pr (receiver_start (upgrade_inbound u (connection_new n)) wire) ops in
       error_free rx \<and> (\<exists>todo. received rx @ todo = sendable enc n ms) \<and>
       (rx_wire rx = [] \<longrightarrow>
          received (receive_run u pr rx (replicate (length ms) Decode_Call)) = sendable enc n ms))"
proof -
  let ?F = "concat (map (\<lambda>m. frame (enc m)) (sendable enc n ms))"
  let ?rx = "\<lambda>ops. receive_run u pr (receiver_start (upgrade_inbound u (connection_new n)) ?F) ops"
  have fit: "\<And>m. m \<in> set (sendable enc n ms) \<Longrightarrow> length (enc m) \<le> n" by (simp add: sendable_def)
  have p: "prost_ok pr enc (set (sendable enc n ms))"
    by (rule prost_ok_mono [OF assms(2)]) (auto simp: sendable_def)
  have "rx_inv frame limit held enc n (sendable enc n ms)
      (receiver_start (upgrade_inbound u (connection_new n)) ?F) (sendable enc n ms)"
    using upgrade_limit [OF assms(1)]
    by (simp add: rx_inv_def receiver_start_def received_def error_free_def List.map_filter_simps)
  then have inv: "\<exists>todo. rx_inv frame limit held enc n (sendable enc n ms) (?rx ops) todo" for ops
    using rx_inv_run [OF assms(1) p fit] by blast
  have "error_free (?rx ops) \<and> (\<exists>todo. received (?rx ops) @ todo = sendable enc n ms) \<and>
       (rx_wire (?rx ops) = [] \<longrightarrow>
          received (receive_run u pr (?rx ops) (replicate (length ms) Decode_Call)) = sendable enc n ms)" for ops
  proof -
    from inv obtain todo where t: "rx_inv frame limit held enc n (sendable enc n ms) (?rx ops) todo" ..
    then have "length todo \<le> length ms"
      by (metis rx_invD(1) sendable_def length_append length_filter_le le_add2 le_trans)
    then have "rx_wire (?rx ops) = [] \<Longrightarrow>
      received (receive_run u pr (?rx ops) (replicate (length ms) Decode_Call)) = sendable enc n ms"
      by (metis rx_invD(1) append_Nil2 rx_inv_drain [OF assms(1) p fit t])
    with rx_invD [OF t] show ?thesis by blast
  qed
  moreover obtain cd where "encode_stream u pr (upgrade_outbound u (connection_new n)) [] ms = Inr (cd, ?F)"
    using encode_stream_ok [OF assms subset_refl upgrade_limit(2) [OF assms(1)], of n "[]"]
    by (auto simp: sendable_def)
  ultimately show ?thesis by (auto simp: Let_def)
qed

theorem stream_roundtrip_witness:
  "\<exists>cd wire. encode_stream toy_uvi toy_prost (upgrade_outbound toy_uvi (connection_new 2)) []
       [rpc_of ''ab'' Prune, rpc_of ''abc'' Prune, rpc_of ''c'' Prune] = Inr (cd, wire) \<and>
    (\<forall>ops. let rx = receive_run toy_uvi toy_prost
              (receiver_start (upgrade_inbound toy_uvi (connection_new 2)) wire) ops in
       error_free rx \<and>
       (\<exists>todo. received rx @ todo = [rpc_of ''ab'' Prune, rpc_of ''c'' Prune]) \<and>
       (rx_wire rx = [] \<longrightarrow>
          received (receive_run toy_uvi toy_prost rx (replicate 3 Decode_Call)) =
            [rpc_of ''ab'' Prune, rpc_of ''c'' Prune]))"
proof -
  have "prost_ok toy_prost toy_enc (set [rpc_of ''ab'' Prune, rpc_of ''abc'' Prune, rpc_of ''c'' Prune])"
    by (rule prost_ok_mono [OF toy_prost_ok]) simp
  from stream_roundtrip [OF toy_uvi_ok this, of 2] show ?thesis
    by (simp add: sendable_def toy_enc_def numeral_3_eq_3)
qed

text \<open>
  C36. What each end refuses: the encoder reports \<open>MaxTransmissionSize\<close> for a message above
  its limit and leaves the buffer as it was, and the decoder reports \<open>MaxTransmissionSize\<close> for a frame
  above its own, whatever follows it, before looking at its payload. A frame whose payload is not a message is
  an \<open>Io\<close> error.
\<close>
theorem oversized_frames_refused:
  assumes "uvi_ok u frame limit held" and "prost_ok pr enc {m}"
  shows "(n < length (enc m) \<longrightarrow>
      (\<exists>cd. codec_encode u pr (upgrade_outbound u (connection_new n)) m dst =
        Inr (Inl MaxTransmissionSize, cd, dst))) \<and>
    (n < length x \<longrightarrow>
      (\<exists>cd src. codec_decode u pr (upgrade_inbound u (connection_new n)) (frame x @ rest) =
        (Inl MaxTransmissionSize, cd, src))) \<and>
    (length x \<le> n \<and> prost_decode pr x = Inl e \<longrightarrow>
      (\<exists>cd src. codec_decode u pr (upgrade_inbound u (connection_new n)) (frame x @ rest) =
        (Inl (Handler_Io (prost_io_error pr e)), cd, src)))"
proof (intro conjI impI)
  show "\<exists>cd. codec_encode u pr (upgrade_outbound u (connection_new n)) m dst =
      Inr (Inl MaxTransmissionSize, cd, dst)" if "n < length (enc m)"
    by (metis codec_encode_oversized [OF assms] upgrade_limit(2) [OF assms(1)] that insertI1 leD)
  let ?c = "length_codec (upgrade_inbound u (connection_new n))"
  have h: "held ?c @ frame x @ rest = frame x @ rest" "limit ?c = n"
    using upgrade_limit [OF assms(1)] by simp_all
  have d: "uvi_delivers u frame limit held" using assms(1) by (simp add: uvi_ok_def)
  show "\<exists>cd src. codec_decode u pr (upgrade_inbound u (connection_new n)) (frame x @ rest) =
      (Inl MaxTransmissionSize, cd, src)" if "n < length x"
  proof -
    from d h that obtain c' src' s where
      "uvi_decode u ?c (frame x @ rest) = (Inl (Io_Error PermissionDenied s), c', src')"
      unfolding uvi_delivers_def by (metis leD)
    then show ?thesis by (simp add: codec_decode_def length_error_def)
  qed
  show "\<exists>cd src. codec_decode u pr (upgrade_inbound u (connection_new n)) (frame x @ rest) =
      (Inl (Handler_Io (prost_io_error pr e)), cd, src)"
    if "length x \<le> n \<and> prost_decode pr x = Inl e"
  proof -
    from d h that obtain c' src' where "uvi_decode u ?c (frame x @ rest) = (Inr (Some x), c', src')"
      unfolding uvi_delivers_def by metis
    with that show ?thesis by (simp add: codec_decode_def)
  qed
qed

theorem oversized_frames_refused_witness:
  "\<exists>cd src. codec_decode toy_uvi toy_prost (upgrade_inbound toy_uvi (connection_new 2))
       (toy_frame [5, 6, 7] @ [9]) = (Inl MaxTransmissionSize, cd, src)"
proof -
  have "prost_ok toy_prost toy_enc {rpc_of ''abc'' Prune}"
    by (rule prost_ok_mono [OF toy_prost_ok]) simp
  from oversized_frames_refused [OF toy_uvi_ok this, of 2 "[]" "[5, 6, 7]" "[9]" "''x''"]
  show ?thesis by simp
qed

end
