(* ===== verification/Connection.thy ===== *)
theory Connection
  imports Handler_Properties Codec_Properties
begin

section \<open>A connection, from handler to handler\<close>

text \<open>
  The outbound loop of one handler writes to a substream, the inbound loop of the other reads from it; between
  them are the codecs of both ends and the bytes. What the \<open>Framed\<close> of asynchronous_codec does with a codec
  is a pair of hypotheses: a send encodes into the buffer of unsent bytes; a read decodes what has arrived
  until that yields a message or nothing more is there.
\<close>

subsection \<open>The sending end\<close>

text \<open>\<open>buffer\<close> holds the bytes that are not on their way yet, \<open>taken\<close> all bytes of the stream.\<close>

definition framed_encodes ::
  "'c uvi \<Rightarrow> prost \<Rightarrow> 'sub framed \<Rightarrow> ('sub \<Rightarrow> 'c episub_codec) \<Rightarrow> ('sub \<Rightarrow> bytes) \<Rightarrow> ('sub \<Rightarrow> bytes) \<Rightarrow> bool" where
  "framed_encodes u pr io codec buffer taken \<longleftrightarrow>
     (\<forall>sub. codec (snd (fr_ready io sub)) = codec sub \<and> taken (snd (fr_ready io sub)) = taken sub \<and>
        codec (snd (fr_flush io sub)) = codec sub \<and> taken (snd (fr_flush io sub)) = taken sub) \<and>
     (\<forall>sub m res cd new. codec_encode u pr (codec sub) m (buffer sub) = Inr (res, cd, buffer sub @ new) \<longrightarrow>
        (\<exists>sub'. fr_send io sub m = (res, sub') \<and> codec sub' = cd \<and> taken sub' = taken sub @ new))"

lemma framed_encodes_writes:
  assumes "framed_encodes u pr io codec buffer taken" and "uvi_ok u frame limit held" and "prost_ok pr enc M"
  shows "sink_writes io M (\<lambda>sub. limit (length_codec (codec sub)) = n) taken (\<lambda>m. frame (enc m))
    (\<lambda>m. n < length (enc m))"
proof -
  note frames = assms(1) [unfolded framed_encodes_def, THEN conjunct2, rule_format]
  have "case fr_send io sub m of
      (Inr u, sub') \<Rightarrow> limit (length_codec (codec sub')) = n \<and> \<not> n < length (enc m) \<and> taken sub' = taken sub @ frame (enc m)
    | (Inl e, sub') \<Rightarrow> e = MaxTransmissionSize \<longrightarrow>
        limit (length_codec (codec sub')) = n \<and> n < length (enc m) \<and> taken sub' = taken sub"
    if n: "limit (length_codec (codec sub)) = n" and m: "m \<in> M" for sub m
  proof (cases "length (enc m) \<le> n")
    case True
    with n obtain cd where cd: "codec_encode u pr (codec sub) m (buffer sub) = Inr (Inr (), cd, buffer sub @ frame (enc m))"
      "limit (length_codec cd) = n"
      using codec_encode_fits [OF assms(2,3) m, of "codec sub" "buffer sub"] by metis
    from frames [OF cd(1)] cd(2) True show ?thesis by auto
  next
    case False
    with n obtain cd where cd: "codec_encode u pr (codec sub) m (buffer sub) = Inr (Inl MaxTransmissionSize, cd, buffer sub @ [])"
      "limit (length_codec cd) = n"
      using codec_encode_oversized [OF assms(2,3) m, of "codec sub" "buffer sub"] by (metis append_Nil2)
    from frames [OF cd(1)] cd(2) False show ?thesis by auto
  qed
  with assms(1) show ?thesis by (simp add: sink_writes_def framed_encodes_def)
qed

text \<open>The loop does not wait for a message while it has one.\<close>

lemma waiting_queue_empty:
  "process_outbound io h = Inr (Pending, h') \<Longrightarrow> hd_outbound h' = Some (WaitingOutput sub) \<Longrightarrow> hd_queue h' = []"
proof (induction "3 * length (hd_queue h) + outbound_rank (hd_outbound h)" arbitrary: h rule: less_induct)
  case less
  have hyp: "hd_queue h' = []" if "process_outbound io g = Inr (Pending, h')"
      "3 * length (hd_queue g) + outbound_rank (hd_outbound g) < 3 * length (hd_queue h) + outbound_rank (hd_outbound h)" for g
    by (rule less.hyps [OF that(2,1) less.prems(2)])
  show ?case
    using less.prems process_outbound.simps [of io h]
    by (auto split: option.splits outbound_state.splits prod.splits poll.splits sum.splits handler_error.splits list.splits
        dest!: hyp)
qed

text \<open>The bytes a handler writes when it sends its queue on a fresh stream.\<close>

lemma handler_writes:
  assumes "framed_encodes u pr io codec buffer taken" and "uvi_ok u frame limit held"
    and "prost_ok pr enc (set (hd_queue h))" and "hd_outbound h = Some (WaitingOutput sub)"
    and "codec sub = upgrade_outbound u (connection_new n)" and "taken sub = []"
    and "process_outbound io h = Inr (Pending, h')" and "hd_outbound h' = Some (WaitingOutput sub')" and "hd_queue h' = []"
  shows "taken sub' = concat (map (\<lambda>m. frame (enc m)) (sendable enc n (hd_queue h)))"
proof -
  note sink = framed_encodes_writes [OF assms(1-3), of n]
  have "out_ok (set (hd_queue h)) (\<lambda>sub. limit (length_codec (codec sub)) = n) h"
    using assms(4,5) upgrade_limit(2) [OF assms(2)] by (simp add: out_ok_def to_send_def)
  from process_outbound_keeps [OF sink assms(7) this] assms(4,6,8,9) show ?thesis
    by (simp add: outgoing_def to_send_def sendable_def not_less)
qed

subsection \<open>The receiving end\<close>

text \<open>The results of the decoder calls that one read makes.\<close>

definition new_results :: "'c receiver \<Rightarrow> 'c receiver \<Rightarrow> (handler_error + rpc option) list" where
  "new_results rx rx' = drop (length (rx_results rx)) (rx_results rx')"

definition waiting :: "(handler_error + rpc option) list \<Rightarrow> bool" where
  "waiting rs \<longleftrightarrow> (\<forall>r \<in> set rs. r = Inr None)"

text \<open>
  A read on a transport that does not fail. It makes the decoder and the arriving bytes take turns; it returns a
  message or an error with the decoder call that yields it, it waits when the decoder asks for more.
\<close>

definition framed_decodes :: "'c uvi \<Rightarrow> prost \<Rightarrow> 'sub framed \<Rightarrow> ('sub \<Rightarrow> 'c receiver) \<Rightarrow> bool" where
  "framed_decodes u pr io rx \<longleftrightarrow>
     (\<forall>sub. \<exists>ops. rx (snd (fr_next io sub)) = receive_run u pr (rx sub) ops \<and>
        (let new = new_results (rx sub) (rx (snd (fr_next io sub)))
         in case fst (fr_next io sub) of
              Pending \<Rightarrow> waiting new \<and> (\<exists>ops'. ops = ops' @ [Decode_Call])
            | Ready None \<Rightarrow> waiting new
            | Ready (Some r) \<Rightarrow> \<exists>ws. waiting ws \<and>
                new = ws @ [case r of Inl e \<Rightarrow> Inl e | Inr m \<Rightarrow> Inr (Some m)]))"

text \<open>Polling the inbound loop a number of times, with the messages it hands up.\<close>

primrec inbound_polls :: "'sub framed \<Rightarrow> nat \<Rightarrow> 'sub handler \<Rightarrow> panic + rpc list \<times> 'sub handler" where
  "inbound_polls io 0 h = Inr ([], h)"
| "inbound_polls io (Suc k) h =
     on_ok (process_inbound io h)
       (\<lambda>(polled, h). on_ok (inbound_polls io k h)
          (\<lambda>(ms, h). Inr (case polled of Ready (Custom m) \<Rightarrow> m # ms | _ \<Rightarrow> ms, h)))"

lemma receive_results: "\<exists>new. rx_results (receive_run u pr r ops) = rx_results r @ new"
proof (induction ops arbitrary: r)
  case (Cons op ops)
  have "\<exists>new. rx_results (receive_step u pr r op) = rx_results r @ new"
    by (cases op) (simp_all add: case_prod_beta)
  with Cons.IH [of "receive_step u pr r op"] show ?case by (auto simp: receive_run_def)
qed (simp add: receive_run_def)

lemma new_results_run: "rx_results (receive_run u pr r ops) = rx_results r @ new_results r (receive_run u pr r ops)"
  using receive_results [of u pr r ops] by (auto simp: new_results_def)

lemma received_results:
  "rx_results r' = rx_results r @ new \<Longrightarrow>
   received r' = received r @ List.map_filter (\<lambda>x. case x of Inr (Some m) \<Rightarrow> Some m | _ \<Rightarrow> None) new"
  by (simp add: received_def map_filter_append)

lemma received_waiting: "rx_results r' = rx_results r @ ws \<Longrightarrow> waiting ws \<Longrightarrow> received r' = received r"
proof -
  have "waiting ws \<Longrightarrow> List.map_filter (\<lambda>x. case x of Inr (Some m) \<Rightarrow> Some m | _ \<Rightarrow> None) ws = []"
    by (induction ws) (simp_all add: waiting_def List.map_filter_simps)
  then show "rx_results r' = rx_results r @ ws \<Longrightarrow> waiting ws \<Longrightarrow> received r' = received r"
    by (simp add: received_results)
qed

text \<open>One read: no error; a message is the next one; waiting with every byte here means all are delivered.\<close>

lemma read_step:
  assumes io: "framed_decodes u pr io rx" and u: "uvi_ok u frame limit held" and p: "prost_ok pr enc (set fs)"
    and fit: "\<And>m. m \<in> set fs \<Longrightarrow> length (enc m) \<le> n"
    and inv: "rx_inv frame limit held enc n fs (rx sub) todo" and nxt: "fr_next io sub = (a, sub')"
  shows "\<exists>todo'. rx_inv frame limit held enc n fs (rx sub') todo' \<and>
    (case a of
       Pending \<Rightarrow> received (rx sub') = received (rx sub) \<and> (rx_wire (rx sub') = [] \<longrightarrow> todo' = [])
     | Ready None \<Rightarrow> received (rx sub') = received (rx sub)
     | Ready (Some (Inl e)) \<Rightarrow> False
     | Ready (Some (Inr m)) \<Rightarrow> received (rx sub') = received (rx sub) @ [m])"
proof -
  have parts: "snd (fr_next io sub) = sub'" "fst (fr_next io sub) = a" using nxt by simp_all
  from io [unfolded framed_decodes_def Let_def, THEN spec [of _ sub], unfolded parts]
  obtain ops where ops: "rx sub' = receive_run u pr (rx sub) ops"
    and res: "case a of
              Pending \<Rightarrow> waiting (new_results (rx sub) (rx sub')) \<and> (\<exists>ops'. ops = ops' @ [Decode_Call])
            | Ready None \<Rightarrow> waiting (new_results (rx sub) (rx sub'))
            | Ready (Some r) \<Rightarrow> \<exists>ws. waiting ws \<and>
                new_results (rx sub) (rx sub') = ws @ [case r of Inl e \<Rightarrow> Inl e | Inr m \<Rightarrow> Inr (Some m)]"
    by (elim exE conjE)
  obtain todo' where todo': "rx_inv frame limit held enc n fs (rx sub') todo'"
    using rx_inv_run [OF u p fit inv] ops by metis
  have new: "rx_results (rx sub') = rx_results (rx sub) @ new_results (rx sub) (rx sub')"
    unfolding ops by (rule new_results_run)
  show ?thesis
  proof (cases a)
    case Pending
    with res obtain ops' where w: "waiting (new_results (rx sub) (rx sub'))" "ops = ops' @ [Decode_Call]" by auto
    note same = received_waiting [OF new w(1)]
    let ?r = "receive_run u pr (rx sub) ops'"
    have last: "rx sub' = receive_step u pr ?r Decode_Call" by (simp add: ops w(2) receive_run_def)
    obtain todo1 where todo1: "rx_inv frame limit held enc n fs ?r todo1" using rx_inv_run [OF u p fit inv] by metis
    have "rx_wire (rx sub') = [] \<longrightarrow> todo' = []"
    proof
      assume "rx_wire (rx sub') = []"
      then have "rx_wire ?r = []" by (simp add: last del: receive_step.simps)
      then have "rx_inv frame limit held enc n fs (rx sub') (tl todo1)"
        using rx_inv_decode [OF u p todo1 fit] last by metis
      then have "received (rx sub') @ tl todo1 = fs" "received (rx sub') @ todo' = fs" "received ?r @ todo1 = fs"
        using rx_invD(1) todo' todo1 by blast+
      moreover have "received ?r = received (rx sub)"
      proof -
        obtain x where "new_results (rx sub) (rx sub') = new_results (rx sub) ?r @ x"
          using new_results_run [of u pr "rx sub" ops'] receive_results [of u pr ?r "[Decode_Call]"] last
          by (auto simp: new_results_def receive_run_def)
        with w(1) have "waiting (new_results (rx sub) ?r)" by (auto simp: waiting_def)
        then show ?thesis by (rule received_waiting [OF new_results_run])
      qed
      ultimately have "todo1 = tl todo1" "todo' = tl todo1" using same by (metis same_append_eq)+
      then show "todo' = []" by (cases todo1) auto
    qed
    with Pending todo' same show ?thesis by auto
  next
    case (Ready b)
    show ?thesis
    proof (cases b)
      case None
      with Ready res todo' received_waiting [OF new] show ?thesis by auto
    next
      case (Some r)
      with Ready res obtain ws where ws: "waiting ws"
        "new_results (rx sub) (rx sub') = ws @ [case r of Inl e \<Rightarrow> Inl e | Inr m \<Rightarrow> Inr (Some m)]" by auto
      show ?thesis
      proof (cases r)
        case (Inl e)
        with ws(2) new rx_invD(2) [OF todo'] show ?thesis by (auto simp: error_free_def)
      next
        case (Inr m)
        with ws have "received (rx sub') = received (rx sub) @ [m]"
          using received_results [OF new] received_waiting [of "rx sub\<lparr>rx_results := rx_results (rx sub) @ ws\<rparr>" "rx sub" ws]
          by (simp add: received_def map_filter_append List.map_filter_simps)
        with Inr Some Ready todo' show ?thesis by auto
      qed
    qed
  qed
qed

subsection \<open>The inbound loop\<close>

definition handed :: "handler_event poll \<Rightarrow> rpc list" where
  "handed polled = (case polled of Ready (Custom m) \<Rightarrow> [m] | _ \<Rightarrow> [])"

text \<open>A handler that has handed up \<open>out\<close> of the messages \<open>fs\<close>; \<open>good\<close> is the invariant of its receiver.\<close>

definition in_ok ::
  "('c receiver \<Rightarrow> rpc list \<Rightarrow> bool) \<Rightarrow> ('sub \<Rightarrow> 'c receiver) \<Rightarrow> rpc list \<Rightarrow> rpc list \<Rightarrow> 'sub handler \<Rightarrow> bool" where
  "in_ok good rx fs out h \<longleftrightarrow>
     hd_inbound h \<noteq> Some In_Poisoned \<and> (\<exists>rest. out @ rest = fs) \<and>
     (\<forall>sub. hd_inbound h = Some (WaitingInput sub) \<longrightarrow> (\<exists>todo. good (rx sub) todo) \<and> received (rx sub) = out)"

lemma closing_silent:
  assumes "\<nexists>sub. hd_inbound h = Some (WaitingInput sub)" and "hd_inbound h \<noteq> Some In_Poisoned"
  shows "\<exists>h'. process_inbound io h = Inr (Pending, h') \<and> hd_inbound h' \<noteq> Some In_Poisoned \<and>
    (\<nexists>sub. hd_inbound h' = Some (WaitingInput sub))"
  using assms
  by (cases "hd_inbound h")
    (auto simp: process_inbound.simps [of io h] split: inbound_state.split prod.split poll.split)

lemma inbound_step:
  assumes io: "framed_decodes u pr io rx" and u: "uvi_ok u frame limit held" and p: "prost_ok pr enc (set fs)"
    and fit: "\<And>m. m \<in> set fs \<Longrightarrow> length (enc m) \<le> n" and ok: "in_ok (rx_inv frame limit held enc n fs) rx fs out h"
  shows "\<exists>polled h'. process_inbound io h = Inr (polled, h') \<and>
    in_ok (rx_inv frame limit held enc n fs) rx fs (out @ handed polled) h' \<and>
    (\<forall>sub. polled = Pending \<longrightarrow> hd_inbound h' = Some (WaitingInput sub) \<longrightarrow> rx_wire (rx sub) = [] \<longrightarrow> out = fs)"
proof (cases "\<exists>sub. hd_inbound h = Some (WaitingInput sub)")
  case False
  moreover have "hd_inbound h \<noteq> Some In_Poisoned" using ok by (simp add: in_ok_def)
  ultimately obtain h' where "process_inbound io h = Inr (Pending, h')"
    "hd_inbound h' \<noteq> Some In_Poisoned" "\<nexists>sub. hd_inbound h' = Some (WaitingInput sub)"
    using closing_silent [of h io] by blast
  with ok show ?thesis by (auto simp: in_ok_def handed_def)
next
  case True
  then obtain sub todo where sub: "hd_inbound h = Some (WaitingInput sub)"
    and inv: "rx_inv frame limit held enc n fs (rx sub) todo" and out: "received (rx sub) = out"
    using ok by (auto simp: in_ok_def)
  obtain a sub' where nxt: "fr_next io sub = (a, sub')" by (cases "fr_next io sub")
  from read_step [OF io u p fit inv nxt] obtain todo' where
    inv': "rx_inv frame limit held enc n fs (rx sub') todo'" and res: "case a of
       Pending \<Rightarrow> received (rx sub') = received (rx sub) \<and> (rx_wire (rx sub') = [] \<longrightarrow> todo' = [])
     | Ready None \<Rightarrow> received (rx sub') = received (rx sub)
     | Ready (Some (Inl e)) \<Rightarrow> False
     | Ready (Some (Inr m)) \<Rightarrow> received (rx sub') = received (rx sub) @ [m]" by blast
  note all = rx_invD(1) [OF inv']
  note unfold = process_inbound.simps [of io h] sub nxt
  show ?thesis
  proof (cases a)
    case Pending
    with res inv' all out show ?thesis by (auto simp: unfold in_ok_def handed_def)
  next
    case (Ready b)
    show ?thesis
    proof (cases b)
      case None
      let ?h = "h\<lparr>hd_inbound := Some (In_Closing sub')\<rparr>"
      obtain h' where "process_inbound io ?h = Inr (Pending, h')" "hd_inbound h' \<noteq> Some In_Poisoned"
        "\<nexists>sub. hd_inbound h' = Some (WaitingInput sub)"
        using closing_silent [of ?h io] by auto
      with None Ready res ok show ?thesis by (auto simp: unfold in_ok_def handed_def)
    next
      case (Some r)
      with Ready res obtain m where "r = Inr m" "received (rx sub') = out @ [m]" using out by (cases r) auto
      with Some Ready inv' all show ?thesis by (auto simp: unfold in_ok_def handed_def)
    qed
  qed
qed

lemma inbound_polls_step:
  "inbound_polls io (Suc k) h = on_ok (process_inbound io h)
     (\<lambda>(polled, h). on_ok (inbound_polls io k h) (\<lambda>(ms, h). Inr (handed polled @ ms, h)))"
  by (auto simp: on_ok_def handed_def split: sum.split poll.split handler_event.split)

lemma inbound_polls_ok:
  assumes io: "framed_decodes u pr io rx" and u: "uvi_ok u frame limit held" and p: "prost_ok pr enc (set fs)"
    and fit: "\<And>m. m \<in> set fs \<Longrightarrow> length (enc m) \<le> n"
  shows "in_ok (rx_inv frame limit held enc n fs) rx fs out h \<Longrightarrow>
    \<exists>ms h'. inbound_polls io k h = Inr (ms, h') \<and> in_ok (rx_inv frame limit held enc n fs) rx fs (out @ ms) h'"
proof (induction k arbitrary: h out)
  case (Suc k)
  from inbound_step [OF io u p fit Suc.prems] obtain polled h1 where
    h1: "process_inbound io h = Inr (polled, h1)" "in_ok (rx_inv frame limit held enc n fs) rx fs (out @ handed polled) h1"
    by blast
  from Suc.IH [OF h1(2)] h1(1) show ?case by (auto simp: inbound_polls_step simp del: inbound_polls.simps)
qed simp

subsection \<open>From handler to handler\<close>

text \<open>
  C4. A connection delivers in order. One handler sends its queue on a fresh substream, the other reads
  the bytes with its own codec for the same limit, in whatever pieces they arrive and however often it is polled. The
  reader never panics, and what it has handed up at any time is a beginning of the messages of the queue
  that fit the limit, in their order, each once. When all bytes have arrived and a poll waits on the open substream, they
  have all been handed up.
\<close>

theorem connection_delivers:
  assumes "uvi_ok u frame limit held" and "prost_ok pr enc (set (hd_queue a))"
    and "framed_encodes u pr io codec buffer taken" and "framed_decodes u pr io' rx"
    and "hd_outbound a = Some (WaitingOutput sub)" and "codec sub = upgrade_outbound u (connection_new n)"
    and "taken sub = []"
    and "process_outbound io a = Inr (Pending, a')" and "hd_outbound a' = Some (WaitingOutput sub')"
    and "hd_inbound b = Some (WaitingInput sub2)"
    and "rx sub2 = receiver_start (upgrade_inbound u (connection_new n)) (taken sub')"
  shows "\<exists>ms b'. inbound_polls io' k b = Inr (ms, b') \<and>
    (\<exists>rest. ms @ rest = sendable enc n (hd_queue a)) \<and>
    (\<forall>b2 sub3. process_inbound io' b' = Inr (Pending, b2) \<longrightarrow> hd_inbound b2 = Some (WaitingInput sub3) \<longrightarrow>
       rx_wire (rx sub3) = [] \<longrightarrow> ms = sendable enc n (hd_queue a))"
proof -
  let ?fs = "sendable enc n (hd_queue a)"
  have fit: "\<And>m. m \<in> set ?fs \<Longrightarrow> length (enc m) \<le> n" by (simp add: sendable_def)
  have p: "prost_ok pr enc (set ?fs)" by (rule prost_ok_mono [OF assms(2)]) (auto simp: sendable_def)
  have "hd_queue a' = []" by (rule waiting_queue_empty [OF assms(8,9)])
  from handler_writes [OF assms(3,1,2,5-9) this] have "taken sub' = concat (map (\<lambda>m. frame (enc m)) ?fs)" .
  then have "rx_inv frame limit held enc n ?fs (rx sub2) ?fs"
    using upgrade_limit [OF assms(1)] assms(11)
    by (simp add: rx_inv_def receiver_start_def received_def error_free_def List.map_filter_simps)
  moreover have "received (rx sub2) = []"
    by (simp add: assms(11) receiver_start_def received_def List.map_filter_simps)
  ultimately have "in_ok (rx_inv frame limit held enc n ?fs) rx ?fs [] b"
    using assms(10) by (auto simp: in_ok_def)
  from inbound_polls_ok [OF assms(4,1) p fit this, of k] obtain ms b' where
    ms: "inbound_polls io' k b = Inr (ms, b')" "in_ok (rx_inv frame limit held enc n ?fs) rx ?fs ms b'" by auto
  from inbound_step [OF assms(4,1) p fit ms(2)] ms show ?thesis by (fastforce simp: in_ok_def)
qed

text \<open>A concrete substream, with a pipe that takes everything at once.\<close>

definition pipe_writer :: "(nat episub_codec \<times> bytes) framed" where
  "pipe_writer =
     \<lparr>fr_next = (\<lambda>sub. (Pending, sub)), fr_ready = (\<lambda>sub. (Ready (Inr ()), sub)),
      fr_send = (\<lambda>(cd, pipe) m.
        case codec_encode toy_uvi toy_prost cd m [] of
          Inr (res, cd, new) \<Rightarrow> (res, cd, pipe @ new)
        | Inl _ \<Rightarrow> (Inl MaxTransmissionSize, cd, pipe)),
      fr_flush = (\<lambda>sub. (Ready (Inr ()), sub)), fr_close = (\<lambda>sub. (Ready (Inr ()), sub))\<rparr>"

definition pipe_reader :: "nat receiver framed" where
  "pipe_reader =
     \<lparr>fr_next = (\<lambda>r. let r' = receive_run toy_uvi toy_prost r [Arrive (length (rx_wire r)), Decode_Call]
        in (case last (rx_results r') of
              Inl e \<Rightarrow> Ready (Some (Inl e)) | Inr (Some m) \<Rightarrow> Ready (Some (Inr m)) | Inr None \<Rightarrow> Pending, r')),
      fr_ready = (\<lambda>sub. (Ready (Inr ()), sub)), fr_send = (\<lambda>sub m. (Inr (), sub)),
      fr_flush = (\<lambda>sub. (Ready (Inr ()), sub)), fr_close = (\<lambda>sub. (Ready (Inr ()), sub))\<rparr>"

lemma pipe_writer_encodes: "framed_encodes toy_uvi toy_prost pipe_writer fst (\<lambda>_. []) snd"
  by (auto simp: framed_encodes_def pipe_writer_def)

lemma pipe_writer_ready: "sink_ready pipe_writer"
  by (auto simp: sink_ready_def pipe_writer_def codec_encode_def split: sum.splits option.splits prod.splits)

lemma pipe_reader_decodes: "framed_decodes toy_uvi toy_prost pipe_reader id"
  unfolding framed_decodes_def
proof
  fix r :: "nat receiver"
  let ?ops = "[Arrive (length (rx_wire r)), Decode_Call]"
  let ?r = "receive_run toy_uvi toy_prost r ?ops"
  obtain x where x: "rx_results ?r = rx_results r @ [x]"
    by (auto simp: receive_run_def case_prod_beta)
  then have "new_results r ?r = [x]" "last (rx_results ?r) = x" by (simp_all add: new_results_def)
  moreover have "fr_next pipe_reader r = (case last (rx_results ?r) of
      Inl e \<Rightarrow> Ready (Some (Inl e)) | Inr (Some m) \<Rightarrow> Ready (Some (Inr m)) | Inr None \<Rightarrow> Pending, ?r)"
    by (simp add: pipe_reader_def Let_def)
  ultimately show "\<exists>ops. id (snd (fr_next pipe_reader r)) = receive_run toy_uvi toy_prost (id r) ops \<and>
        (let new = new_results (id r) (id (snd (fr_next pipe_reader r)))
         in case fst (fr_next pipe_reader r) of
              Pending \<Rightarrow> waiting new \<and> (\<exists>ops'. ops = ops' @ [Decode_Call])
            | Ready None \<Rightarrow> waiting new
            | Ready (Some r) \<Rightarrow> \<exists>ws. waiting ws \<and>
                new = ws @ [case r of Inl e \<Rightarrow> Inl e | Inr m \<Rightarrow> Inr (Some m)])"
    by (intro exI [of _ ?ops]) (auto simp: waiting_def split: sum.split option.split)
qed

theorem connection_delivers_witness:
  "\<exists>sub' a' ms b'. process_outbound pipe_writer
       ((fully_negotiated_outbound (upgrade_outbound toy_uvi (connection_new 2), []) (new_handler 2 False))
          \<lparr>hd_queue := [rpc_of ''ab'' Prune, rpc_of ''abc'' Prune, rpc_of ''c'' Prune]\<rparr>) = Inr (Pending, a') \<and>
     hd_outbound a' = Some (WaitingOutput sub') \<and>
     inbound_polls pipe_reader 3 (fully_negotiated_inbound
       (receiver_start (upgrade_inbound toy_uvi (connection_new 2)) (snd sub')) (new_handler 2 False)) = Inr (ms, b') \<and>
     (\<exists>rest. ms @ rest = [rpc_of ''ab'' Prune, rpc_of ''c'' Prune])"
proof -
  let ?q = "[rpc_of ''ab'' Prune, rpc_of ''abc'' Prune, rpc_of ''c'' Prune]"
  define a where "a = (fully_negotiated_outbound (upgrade_outbound toy_uvi (connection_new 2), [] :: bytes)
      (new_handler 2 False))\<lparr>hd_queue := ?q\<rparr>"
  have a: "hd_queue a = ?q" "hd_outbound a = Some (WaitingOutput (upgrade_outbound toy_uvi (connection_new 2), []))"
    by (simp_all add: a_def fully_negotiated_outbound_def)
  obtain a' sub' where run: "process_outbound pipe_writer a = Inr (Pending, a')" "hd_outbound a' = Some (WaitingOutput sub')"
    using process_outbound_drains [OF pipe_writer_ready, of a] a by auto
  define b where "b = fully_negotiated_inbound
      (receiver_start (upgrade_inbound toy_uvi (connection_new 2)) (snd sub')) (new_handler 2 False)"
  have b: "hd_inbound b = Some (WaitingInput (receiver_start (upgrade_inbound toy_uvi (connection_new 2)) (snd sub')))"
    by (simp add: b_def fully_negotiated_inbound_def)
  have prost: "prost_ok toy_prost toy_enc (set (hd_queue a))"
    unfolding a by (rule prost_ok_mono [OF toy_prost_ok]) simp
  have "sendable toy_enc 2 ?q = [rpc_of ''ab'' Prune, rpc_of ''c'' Prune]"
    by (simp add: sendable_def toy_enc_def)
  with connection_delivers [OF toy_uvi_ok prost pipe_writer_encodes pipe_reader_decodes a(2) _ _ run b, of 2 3] a(1)
  obtain ms b' where "inbound_polls pipe_reader 3 b = Inr (ms, b')"
    "\<exists>rest. ms @ rest = [rpc_of ''ab'' Prune, rpc_of ''c'' Prune]" by auto
  with run show ?thesis unfolding a_def b_def by blast
qed

end
