(* ===== verification/Network_Reachable.thy ===== *)
theory Network_Reachable
  imports Network
begin

section \<open>The reachable states of the network task\<close>

text \<open>
  The task's behaviour is a reachable one, under the production configuration, and is subscribed to the
  three topics of the network, active or pending, in every state.
\<close>

subsection \<open>Topics are kept\<close>

definition topic_names :: "episub \<Rightarrow> string set" where
  "topic_names s = fst ` set (ep_topics s) \<union> set (ep_pending_topics s)"

text \<open>Two states with the same configuration and the same topics, active or pending.\<close>

definition same_topics :: "episub \<Rightarrow> episub \<Rightarrow> bool" where
  "same_topics s s' \<longleftrightarrow> ep_config s' = ep_config s \<and> topic_names s' = topic_names s"

lemma same_topics_refl [simp, intro]: "same_topics s s"
  by (simp add: same_topics_def)

lemma same_topics_trans: "same_topics a b \<Longrightarrow> same_topics b c \<Longrightarrow> same_topics a c"
  by (simp add: same_topics_def)

lemma same_topics_frame [simp]:
  "same_topics s (ep_push a s)"
  "same_topics s (force_disconnect p c s)"
  "same_topics s (ban_peer p c s)"
  "same_topics s (s\<lparr>ep_out_events := es\<rparr>)"
  "same_topics s (s\<lparr>ep_peer_addresses := as\<rparr>)"
  "same_topics s (s\<lparr>ep_early_peers := ps\<rparr>)"
  "same_topics s (s\<lparr>ep_peer_addresses := as, ep_early_peers := ps\<rparr>)"
  "same_topics s (s\<lparr>ep_local_node := l\<rparr>)"
  by (simp_all add: same_topics_def topic_names_def)

lemma same_topics_names:
  "ep_config s' = ep_config s \<Longrightarrow> ep_pending_topics s' = ep_pending_topics s \<Longrightarrow>
   map fst (ep_topics s') = map fst (ep_topics s) \<Longrightarrow> same_topics s s'"
  unfolding same_topics_def topic_names_def by (metis list.set_map)

lemma same_topics_each [simp]: "same_topics s (each_topic f s)"
  by (rule same_topics_names) simp_all

lemma same_topics_update:
  assumes "map_of (ep_topics s) t \<noteq> None"
  shows "same_topics s (update_topic t m s)"
proof -
  from assms have "t \<in> fst ` set (ep_topics s)" by (simp add: map_of_eq_None_iff)
  then show ?thesis
    by (simp add: same_topics_def topic_names_def update_topic_def dom_update insert_absorb)
qed

lemma same_topics_join:
  "request_join_for_starving_topics w p s = Inr s' \<Longrightarrow> same_topics s s'"
  using request_join_cases [of w p s s'] by auto

lemma same_topics_early: "join_early w ps s = Inr s' \<Longrightarrow> same_topics s s'"
proof (induction ps arbitrary: s)
  case (Cons p ps)
  then obtain s1 where "request_join_for_starving_topics w p s = Inr s1" "join_early w ps s1 = Inr s'"
    by (auto simp: on_ok_Inr_iff)
  with Cons.IH same_topics_join same_topics_trans show ?case by blast
qed simp

lemma same_topics_activate: "same_topics s (activate_pending clk n s)"
  by (auto simp: same_topics_def topic_names_def activate_topics_names)

lemma same_topics_local_node:
  assumes "update_local_node_info w clk params s = Inr s'"
  shows "same_topics s s'"
proof (cases "ep_local_node s = None \<and> local_addresses params \<noteq> []")
  case True
  let ?n = "\<lparr>peer_id = pp_local_peer_id params, addresses = local_addresses params\<rparr>"
  let ?s = "s\<lparr>ep_local_node := Some ?n\<rparr>"
  have "same_topics s ?s" by simp
  moreover have "same_topics ?s (activate_pending clk ?n ?s)" by (rule same_topics_activate)
  moreover have "same_topics (activate_pending clk ?n ?s) ((activate_pending clk ?n ?s)\<lparr>ep_early_peers := []\<rparr>)"
    by simp
  moreover have "join_early w (ep_early_peers s) ((activate_pending clk ?n ?s)\<lparr>ep_early_peers := []\<rparr>) = Inr s'"
    using True assms by (simp add: update_local_node_info_def Let_def)
  ultimately show ?thesis by (meson same_topics_early same_topics_trans)
qed (use assms in \<open>auto simp: update_local_node_info_def Let_def split: if_splits\<close>)

lemma same_topics_poll:
  assumes "poll_episub w rs clk params s = Inr (e, s')"
  shows "same_topics s s'"
proof -
  from assms obtain s1 where s1: "update_local_node_info w clk params s = Inr s1"
    by (auto simp: poll_episub_def on_ok_Inr_iff)
  have "same_topics s1 s'"
  proof (cases "ep_out_events s1")
    case Nil
    with s1 assms obtain clk' ms where ms: "poll_topics w rs clk' (ep_topics s1) = Inr (e, ms)"
      "s' = s1\<lparr>ep_topics := ms\<rparr>"
      by (auto simp: poll_episub_def on_ok_Inr_iff)
    from poll_topics_shape [OF ms(1)] ms(2) show ?thesis by (intro same_topics_names) simp_all
  qed (use s1 assms in \<open>auto simp: poll_episub_def\<close>)
  with same_topics_local_node [OF s1] show ?thesis by (rule same_topics_trans)
qed

lemma same_topics_established:
  assumes "inject_connection_established w p c e s = Inr s'"
  shows "same_topics s s'"
proof -
  have known: "same_topics s (s\<lparr>ep_peer_addresses := as\<rparr>)" for as by simp
  from assms show ?thesis
    by (cases e) (auto simp: inject_connection_established_def Let_def split: if_splits
        dest!: same_topics_join intro: same_topics_trans [OF known])
qed

lemma same_topics_event:
  assumes "inject_event w z r clk p c m s = Inr s'"
  shows "same_topics s s'"
  using assms
proof (cases rule: inject_event_cases)
  case unknown
  then show ?thesis using same_topics_trans [OF same_topics_frame(1) same_topics_frame(2)] by simp
next
  case (called mesh res mesh')
  then have "same_topics s (update_topic (rpc_topic m) mesh' s)" by (simp add: same_topics_update)
  with called(4) same_topics_trans [OF this same_topics_frame(3)] show ?thesis by (auto split: sum.splits)
qed simp_all

lemma same_topics_call: "swarm_call op \<Longrightarrow> episub_step w z op s = Inr s' \<Longrightarrow> same_topics s s'"
  by (cases op) (auto simp: inject_new_listen_addr_def inject_expired_listen_addr_def
      inject_dial_failure_def inject_connection_closed_def same_topics_established same_topics_event
      split: option.split)

lemma same_topics_publish: "same_topics s (snd (publish z r now t m s))"
  by (auto simp: publish_def Let_def same_topics_update split: option.split sum.split)

subsection \<open>The invariant\<close>

definition network_topics :: "string \<Rightarrow> string set" where
  "network_topics i = {message_topic i, subscribe_topic i, ack_topic i}"

definition network_inv :: "wire_codec \<Rightarrow> zstd \<Rightarrow> network \<Rightarrow> bool" where
  "network_inv w z n \<longleftrightarrow>
     episub_reachable w z (nw_behaviour n) \<and> ep_config (nw_behaviour n) = network_config \<and>
     network_topics (nw_id n) \<subseteq> topic_names (nw_behaviour n)"

lemma network_inv_frame [simp]:
  "network_inv w z (n\<lparr>nw_in := is\<rparr>) = network_inv w z n"
  "network_inv w z (n\<lparr>nw_out := os\<rparr>) = network_inv w z n"
  "network_inv w z (n\<lparr>nw_alive := a\<rparr>) = network_inv w z n"
  "network_inv w z (n\<lparr>nw_dialed := ds\<rparr>) = network_inv w z n"
  "network_inv w z (handle_swarm_event f e n) = network_inv w z n"
  by (simp_all add: network_inv_def handle_swarm_event_def split: option.split)

lemma network_inv_step:
  assumes "network_inv w z n" and "episub_step w z op (nw_behaviour n) = Inr s"
    and "same_topics (nw_behaviour n) s"
  shows "network_inv w z (n\<lparr>nw_behaviour := s\<rparr>)"
  using assms episub_next [OF _ assms(2)] by (simp add: network_inv_def same_topics_def)

lemma network_inv_publish:
  assumes "network_inv w z n" and "publish_or_panic z r now t b n = Inr n'"
  shows "network_inv w z n' \<and> nw_id n' = nw_id n"
proof -
  from assms(2) obtain m i s where s: "publish z r now t m (nw_behaviour n) = (Inr i, s)" "n' = n\<lparr>nw_behaviour := s\<rparr>"
    by (auto simp: publish_or_panic_def split: option.splits prod.splits sum.splits)
  then have "episub_step w z (Ep_Publish r now t m) (nw_behaviour n) = Inr s" by simp
  from network_inv_step [OF assms(1) this] s same_topics_publish [of "nw_behaviour n" z r now t m]
  show ?thesis by simp
qed

lemma network_inv_command:
  "network_inv w z n \<Longrightarrow> handle_command f z r now c n = Inr n' \<Longrightarrow> network_inv w z n'"
  by (cases c) (auto dest: network_inv_publish)

lemma network_inv_new: "network_inv w z (network_new clk i bootstrap)"
proof -
  let ?s = "\<lambda>t s. snd (subscribe clk t s)"
  have reach: "episub_reachable w z (?s t s)" if "episub_reachable w z s" for t s
    using episub_next [OF that, of "Ep_Subscribe clk t"] by simp
  have keep: "ep_local_node (?s t s) = None \<and> ep_topics (?s t s) = [] \<and> ep_config (?s t s) = ep_config s \<and>
      set (ep_pending_topics (?s t s)) = insert t (set (ep_pending_topics s))"
    if "ep_local_node s = None \<and> ep_topics s = []" for t s
    using that by (simp add: subscribe_def)
  let ?a = "new_episub network_config"
  have a: "ep_local_node ?a = None \<and> ep_topics ?a = []" by (simp add: new_episub_def)
  note b = keep [OF a, of "message_topic i"]
  note c = keep [of "?s (message_topic i) ?a" "subscribe_topic i"]
  note d = keep [of "?s (subscribe_topic i) (?s (message_topic i) ?a)" "ack_topic i"]
  have "episub_reachable w z (?s (ack_topic i) (?s (subscribe_topic i) (?s (message_topic i) ?a)))"
    by (intro reach episub_init)
  then show ?thesis
    using b c d by (auto simp: network_inv_def network_new_def Let_def network_topics_def topic_names_def
        new_episub_def)
qed

lemma network_inv_call:
  assumes "network_inv w z n" and "swarm_call op"
  shows "network_inv w z (swarm_turn w z op n)"
  using assms network_inv_step [OF assms(1)] same_topics_call [OF assms(2)]
  by (auto simp: swarm_turn_def split: sum.split)

lemma network_inv_poll:
  assumes "network_inv w z n"
  shows "network_inv w z (swarm_poll w f rs clk params n)"
proof (cases "poll_episub w rs clk params (nw_behaviour n)")
  case (Inr p)
  then obtain e s where p: "poll_episub w rs clk params (nw_behaviour n) = Inr (e, s)" by (cases p) auto
  then have "episub_step w z (Ep_Poll rs clk params) (nw_behaviour n) = Inr s" by simp
  from network_inv_step [OF assms this same_topics_poll [OF p]] p assms show ?thesis
    by (auto simp: swarm_poll_def split: poll.split action.split)
qed (use assms in \<open>simp add: swarm_poll_def\<close>)

lemma network_reachable_inv: "network_reachable w f z n \<Longrightarrow> network_inv w z n"
proof (induction rule: network_reachable.induct)
  case (network_command n r now)
  have "network_inv w z (n\<lparr>nw_out := cs\<rparr>)" for cs using network_command(2) by simp
  from network_inv_command [OF this] network_command(2) show ?case
    by (auto simp: command_turn_def split: list.split sum.split)
next
  case (network_send n c n')
  then show ?case by (auto simp: send_command_def split: if_splits)
next
  case (network_receive n)
  then show ?case by (auto simp: network_poll_def split: list.split)
qed (simp_all add: network_inv_new network_inv_call network_inv_poll)

end
