(* ===== verification/Network_Properties.thy ===== *)
theory Network_Properties
  imports Network_Reachable Behaviour_Properties
begin

section \<open>What the network task guarantees\<close>

text \<open>
  A message handed to the task on one node comes out of the task on another; exactly when a command
  panics and what that does; acknowledgements that never decode; and the sizes and windows of the
  production configuration.
\<close>

subsection \<open>Topics\<close>

lemma topics_distinct [simp]:
  "message_topic i \<noteq> subscribe_topic i" "subscribe_topic i \<noteq> message_topic i"
  "message_topic i \<noteq> ack_topic i" "ack_topic i \<noteq> message_topic i"
  "subscribe_topic i \<noteq> ack_topic i" "ack_topic i \<noteq> subscribe_topic i"
  by (simp_all add: message_topic_def subscribe_topic_def ack_topic_def topic_name_def)

subsection \<open>The production configuration\<close>

lemma network_config_fields [simp]:
  "enable_compression network_config" "compression_level network_config = 0"
  "authorizer network_config = (\<lambda>_ _. True)"
  by (simp_all add: network_config_def default_config_def)

lemma network_topic_config:
  assumes "network_reachable w f z n" and "map_of (ep_topics (nw_behaviour n)) t = Some m"
  shows "pt_topic (tm_tree m) = t" and "pt_config (tm_tree m) = network_config"
proof -
  from assms(1) have inv: "network_inv w z n" by (rule network_reachable_inv)
  then have "episub_inv w z (nw_behaviour n)" by (simp add: network_inv_def reachable_inv)
  with map_of_SomeD [OF assms(2)] inv show "pt_topic (tm_tree m) = t" "pt_config (tm_tree m) = network_config"
    by (auto simp: episub_inv_def network_inv_def mesh_of_def tree_ident_def)
qed

text \<open>A concrete format: a message is its content.\<close>

definition plain_format :: wire_format where
  "plain_format =
     \<lparr>bincode_message = (\<lambda>m. Some (ms_content m)),
      bincode_message_from = (\<lambda>b. Inr (message_new \<lparr>mh_code = 0, mh_digest = []\<rparr> b)),
      bincode_hash = (\<lambda>h. Some (mh_digest h)), bincode_hash_from = (\<lambda>b. Inr \<lparr>mh_code = 0, mh_digest = b\<rparr>),
      hash_from_bytes = (\<lambda>b. Inr \<lparr>mh_code = 0, mh_digest = b\<rparr>)\<rparr>"

text \<open>A concrete network whose node has just learned its address, for evaluating the model.\<close>

definition own_node :: addressable_peer where
  "own_node = \<lparr>peer_id = PeerId [0], addresses = [public_addr]\<rparr>"

definition ready_network :: "string \<Rightarrow> network" where
  "ready_network i = (network_new (\<lambda>_. 0) i [])\<lparr>nw_behaviour :=
     (new_episub network_config)\<lparr>ep_local_node := Some own_node,
        ep_topics := map (\<lambda>t. (t, new_mesh t network_config own_node (\<lambda>_. 0)))
          [message_topic i, subscribe_topic i, ack_topic i]\<rparr>\<rparr>"

lemma ready_network_fields [simp]:
  "nw_id (ready_network i) = i" "nw_alive (ready_network i)"
  "ep_banned_peers (nw_behaviour (ready_network i)) = []"
  "ep_config (nw_behaviour (ready_network i)) = network_config"
  "map_of (ep_topics (nw_behaviour (ready_network i))) (message_topic i) =
     Some (new_mesh (message_topic i) network_config own_node (\<lambda>_. 0))"
  by (simp_all add: ready_network_def network_new_def new_episub_def Let_def)

lemma still_clock [simp]: "clock_from (\<lambda>_. c) k = (\<lambda>_. c)"
  by (simp add: clock_from_def)

lemma poll_new_mesh:
  "poll_mesh w r (\<lambda>_. 0) (new_mesh t network_config own_node (\<lambda>_. 0)) =
     Inr (Pending, new_mesh t network_config own_node (\<lambda>_. 0))"
  by (simp add: poll_mesh_def new_mesh_def poll_view_def new_view_def shuffle_timer_def tick_timer_def
      hv_pop_def duration_since_def poll_tree_def tree_timer_def new_tree_def pt_pop_def Let_def)

lemma ready_network_reachable: "network_reachable w f z (ready_network i)"
proof -
  have names: "message_topic i = t \<Longrightarrow> subscribe_topic i \<noteq> t \<and> ack_topic i \<noteq> t" for t by auto
  have "swarm_poll w f (\<lambda>_. r) (\<lambda>_. 0) sample_params (network_new (\<lambda>_. 0) i []) = ready_network i"
    by (simp add: swarm_poll_def network_new_def ready_network_def poll_episub_def update_local_node_info_def
        sample_addresses subscribe_def new_episub_def hs_insert_def activate_pending_def activate_topics_def
        Let_def poll_new_mesh [unfolded own_node_def] own_node_def upt_rec hs_contains_def
        sample_params_def [THEN arg_cong [where f = pp_local_peer_id]])
  with network_swarm [OF network_init] show ?thesis by metis
qed



subsection \<open>Panics\<close>

lemma publish_or_panic_Inl:
  assumes "network_inv w z n" and "t \<in> network_topics (nw_id n)"
  shows "publish_or_panic z r now t serialized n = Inl x \<longleftrightarrow>
    serialized = None \<and> x = Expect_Failed \<or>
    (\<exists>b. serialized = Some b \<and> x = Unwrap_Err \<and>
       (ep_local_node (nw_behaviour n) = None \<or> (\<exists>e. encode_all z 0 b = Inl e)))"
proof -
  have inv: "episub_inv w z (nw_behaviour n)" "ep_config (nw_behaviour n) = network_config"
    and t: "t \<in> topic_names (nw_behaviour n)"
    using assms by (auto simp: network_inv_def reachable_inv)
  have "map_of (ep_topics (nw_behaviour n)) t = None \<longleftrightarrow> ep_local_node (nw_behaviour n) = None"
    using inv(1) t by (auto simp: episub_inv_def topic_names_def map_of_eq_None_iff)
  then show ?thesis
    using inv(2) by (auto simp: publish_or_panic_def publish_def Let_def split: option.splits sum.splits)
qed

text \<open>
  C21. When the task panics on a gossiped message: exactly when the message does not serialize, when the node
  does not know its own addresses yet, so that the topic is still pending, or when compression fails.
  A panic ends the task: the command is lost, and every later call of the main loop fails with the
  command it tried to send.
\<close>

theorem gossip_panics_iff:
  assumes "network_reachable w f z n"
  shows "(handle_command f z r now (GossipMessage msg) n = Inl x \<longleftrightarrow>
      bincode_message f msg = None \<and> x = Expect_Failed \<or>
      (\<exists>b. bincode_message f msg = Some b \<and> x = Unwrap_Err \<and>
         (ep_local_node (nw_behaviour n) = None \<or> (\<exists>e. encode_all z 0 b = Inl e)))) \<and>
    (handle_command f z r now (GossipMessage msg) n = Inl x \<and> nw_alive n \<longrightarrow>
      (\<forall>c. send_command c (command_turn f z r now (n\<lparr>nw_out := GossipMessage msg # cs\<rparr>)) = Inl c))"
proof -
  have "network_inv w z n" by (rule network_reachable_inv [OF assms])
  from publish_or_panic_Inl [OF this, of "message_topic (nw_id n)" r now _ x]
  have iff: "handle_command f z r now (GossipMessage msg) n = Inl x \<longleftrightarrow>
      bincode_message f msg = None \<and> x = Expect_Failed \<or>
      (\<exists>b. bincode_message f msg = Some b \<and> x = Unwrap_Err \<and>
         (ep_local_node (nw_behaviour n) = None \<or> (\<exists>e. encode_all z 0 b = Inl e)))"
    by (simp add: network_topics_def)
  have "n\<lparr>nw_out := GossipMessage msg # cs, nw_out := cs\<rparr> = n\<lparr>nw_out := cs\<rparr>" by simp
  moreover have "handle_command f z r now (GossipMessage msg) (n\<lparr>nw_out := cs\<rparr>) = Inl x"
    if "handle_command f z r now (GossipMessage msg) n = Inl x"
    using that by (auto simp: publish_or_panic_def split: option.splits prod.splits sum.splits)
  ultimately show ?thesis
    using iff by (auto simp: command_turn_def send_command_def)
qed

theorem gossip_panics_iff_witness:
  "handle_command plain_format tag_zstd first_entropy 0
      (GossipMessage (message_new \<lparr>mh_code = 0, mh_digest = []\<rparr> [7])) (network_new (\<lambda>_. 0) ''n'' []) = Inl Unwrap_Err"
proof -
  have "ep_local_node (nw_behaviour (network_new (\<lambda>_. 0) ''n'' [])) = None"
    by (simp add: network_new_def subscribe_def new_episub_def Let_def)
  with gossip_panics_iff [OF network_init [of toy_wire plain_format tag_zstd "\<lambda>_. 0" "''n''" "[]"],
      of first_entropy 0 "message_new \<lparr>mh_code = 0, mh_digest = []\<rparr> [7]" Unwrap_Err "[]"]
  show ?thesis by (simp add: plain_format_def)
qed

subsection \<open>End to end\<close>

text \<open>
  What bincode documents for a message: decoding undoes encoding, the skipped hash cache apart.
\<close>

definition bincode_roundtrips :: "wire_format \<Rightarrow> message \<Rightarrow> bool" where
  "bincode_roundtrips f m \<longleftrightarrow>
     (\<forall>b. bincode_message f m = Some b \<longrightarrow> bincode_message_from f b = Inr (m\<lparr>ms_hashcache := None\<rparr>))"

text \<open>
  C10. From main loop to main loop. When node \<open>a\<close> handles the command to gossip a message, under a fresh id,
  every peer that is eager in the message topic gets it queued; when node \<open>b\<close> of the same network
  receives what was queued, for the first time and from a peer it has not banned, it queues an event
  that its task turns into the receipt of the same message, without the cached hash.
\<close>

theorem gossip_reaches_peers:
  assumes "network_reachable w f z a" and "network_reachable w f z b" and "nw_id b = nw_id a"
    and "zstd_roundtrips z" and "bincode_roundtrips f msg"
    and "handle_command f z r now (GossipMessage msg) a = Inr a'"
    and "map_of (ep_topics (nw_behaviour a)) (message_topic (nw_id a)) = Some ma"
    and "p \<in> set (pt_eager (tm_tree ma))"
    and "cache_get (gen_u64 r 0) (pt_received (tm_tree ma)) = None"
    and "cache_get (gen_u64 r 0) (pt_observed (tm_tree ma)) = None"
    and "map_of (ep_topics (nw_behaviour b)) (message_topic (nw_id a)) = Some mb"
    and "q \<notin> set (ep_banned_peers (nw_behaviour b))"
    and "cache_get (gen_u64 r 0) (pt_received (tm_tree mb)) = None"
  shows "\<exists>rpc ma' mb' b' event.
    map_of (ep_topics (nw_behaviour a')) (message_topic (nw_id a)) = Some ma' \<and>
    NotifyHandler p rpc \<in> set (pt_out_events (tm_tree ma')) \<and>
    inject_event w z r' clk q c rpc (nw_behaviour b) = Inr b' \<and>
    map_of (ep_topics b') (message_topic (nw_id a)) = Some mb' \<and>
    GenerateEvent event \<in> set (pt_out_events (tm_tree mb')) \<and>
    swarm_event f (nw_id b) event = Some (MessageReceived (msg\<lparr>ms_hashcache := None\<rparr>))"
proof -
  let ?t = "message_topic (nw_id a)"
  obtain bytes i s where bytes: "bincode_message f msg = Some bytes"
    and pub: "publish z r now ?t bytes (nw_behaviour a) = (Inr i, s)" and a': "a' = a\<lparr>nw_behaviour := s\<rparr>"
    using assms(6) by (auto simp: publish_or_panic_def split: option.splits prod.splits sum.splits)
  have i: "i = gen_u64 r 0"
    using pub by (auto simp: publish_def Let_def split: option.splits sum.splits)
  have conf: "ep_config (nw_behaviour a) = network_config" "ep_config (nw_behaviour b) = network_config"
    using assms(1,2) by (auto dest!: network_reachable_inv simp: network_inv_def)
  note tb = network_topic_config [OF assms(2,11)]
  have "enable_compression (pt_config (tm_tree mb)) = enable_compression (ep_config (nw_behaviour a))"
    by (simp add: tb conf)
  then obtain payload ma' where sent: "map_of (ep_topics s) ?t = Some ma'"
      "NotifyHandler p (rpc_of ?t (Message i 1 payload)) \<in> set (pt_out_events (tm_tree ma'))"
    and dec: "decodes_to z (pt_config (tm_tree mb)) payload bytes"
    by (rule publish_queues [OF assms(4) pub assms(7) network_topic_config(1) [OF assms(1,7)] assms(8)
          assms(9,10) [folded i]])
  have "allow (ep_config (nw_behaviour b)) ?t q" by (simp add: allow_def conf)
  from message_delivered [OF assms(11,12) this dec, of i w r' clk c 1] assms(13) i
  obtain mb' b' where "inject_event w z r' clk q c (rpc_of ?t (Message i 1 payload)) (nw_behaviour b) = Inr b'"
    "map_of (ep_topics b') ?t = Some mb'" "GenerateEvent (EvMessage ?t i bytes) \<in> set (pt_out_events (tm_tree mb'))"
    unfolding tb by metis
  moreover have "swarm_event f (nw_id b) (EvMessage ?t i bytes) = Some (MessageReceived (msg\<lparr>ms_hashcache := None\<rparr>))"
    using assms(3,5) bytes by (simp add: swarm_event_def bincode_roundtrips_def)
  ultimately show ?thesis using sent a' by fastforce
qed

theorem gossip_reaches_peers_witness:
  "\<exists>a a' rpc b' mb' event.
    handle_command plain_format tag_zstd first_entropy 0
      (GossipMessage (message_new \<lparr>mh_code = 0, mh_digest = []\<rparr> [7])) a = Inr a' \<and>
    inject_event toy_wire tag_zstd first_entropy (\<lambda>_. 0) (PeerId [0]) 0 rpc
      (nw_behaviour (ready_network ''n'')) = Inr b' \<and>
    map_of (ep_topics b') (message_topic ''n'') = Some mb' \<and>
    GenerateEvent event \<in> set (pt_out_events (tm_tree mb')) \<and>
    swarm_event plain_format ''n'' event =
      Some (MessageReceived (message_new \<lparr>mh_code = 0, mh_digest = []\<rparr> [7]))"
proof -
  let ?t = "message_topic ''n''" and ?b = "ready_network ''n''"
  let ?msg = "message_new \<lparr>mh_code = 0, mh_digest = []\<rparr> [7]"
  define ma where "ma = on_tree (inject_graft (PeerId [2]) []) (new_mesh ?t network_config own_node (\<lambda>_. 0))"
  define a where "a = swarm_turn toy_wire tag_zstd
    (Ep_Event first_entropy (\<lambda>_. 0) (PeerId [2]) 0 (rpc_of ?t (Graft []))) ?b"
  have reach: "network_reachable toy_wire plain_format tag_zstd a"
    unfolding a_def by (rule network_call [OF ready_network_reachable]) simp
  have a: "a = ?b\<lparr>nw_behaviour := update_topic ?t ma (nw_behaviour ?b)\<rparr>"
    by (simp add: a_def swarm_turn_def inject_event_def allow_def inject_rpc_call_def ma_def)
  then have id: "nw_id ?b = nw_id a" "nw_id a = ''n''" by simp_all
  have id0: "gen_u64 first_entropy 0 = 0" by (simp add: first_entropy_def)
  have ma: "map_of (ep_topics (nw_behaviour a)) (message_topic (nw_id a)) = Some ma"
    by (simp add: a update_topic_def update_conv')
  have fresh: "cache_get 0 (pt_received (tm_tree ma)) = None" "cache_get 0 (pt_observed (tm_tree ma)) = None"
      "PeerId [2] \<in> set (pt_eager (tm_tree ma))"
    by (simp_all add: ma_def on_tree_def new_mesh_def new_tree_def inject_graft_def Let_def)
  have format: "bincode_roundtrips plain_format ?msg"
    by (simp add: bincode_roundtrips_def plain_format_def message_new_def)
  have "ep_config (nw_behaviour a) = network_config" by (simp add: a update_topic_def)
  then obtain a' where a': "handle_command plain_format tag_zstd first_entropy 0 (GossipMessage ?msg) a = Inr a'"
    using ma id0 by (simp add: publish_or_panic_def publish_def plain_format_def tag_zstd_def Let_def)
  have "\<exists>rpc ma' mb' b' event.
    map_of (ep_topics (nw_behaviour a')) (message_topic (nw_id a)) = Some ma' \<and>
    NotifyHandler (PeerId [2]) rpc \<in> set (pt_out_events (tm_tree ma')) \<and>
    inject_event toy_wire tag_zstd first_entropy (\<lambda>_. 0) (PeerId [0]) 0 rpc (nw_behaviour ?b) = Inr b' \<and>
    map_of (ep_topics b') (message_topic (nw_id a)) = Some mb' \<and>
    GenerateEvent event \<in> set (pt_out_events (tm_tree mb')) \<and>
    swarm_event plain_format (nw_id ?b) event = Some (MessageReceived (?msg\<lparr>ms_hashcache := None\<rparr>))"
    by (rule gossip_reaches_peers [OF reach ready_network_reachable id(1) tag_zstd_ok format a' ma, where
          mb = "new_mesh ?t network_config own_node (\<lambda>_. 0)"])
      (simp_all add: fresh id0 id(2) new_mesh_def new_tree_def)
  with a' show ?thesis unfolding id by (simp add: message_new_def) blast
qed

subsection \<open>Acknowledgements\<close>

text \<open>
  What the two crates document of a multihash's bytes. bincode writes the struct: eight bytes of code,
  least significant first, one byte of length, and the digest's array of 64 bytes. The binary
  format is a varint of code, a varint of length and that many bytes, with nothing left over; stated here for a code
  and a length of one byte each.
\<close>

definition le_bytes :: "u64 \<Rightarrow> bytes" where
  "le_bytes x = map (\<lambda>i. ucast (drop_bit (8 * i) x)) [0..<8]"

definition bincode_layout :: "wire_format \<Rightarrow> bool" where
  "bincode_layout f \<longleftrightarrow>
     (\<forall>h. bincode_hash f h =
        Some (le_bytes (mh_code h) @ word_of_nat (length (mh_digest h)) # mh_digest h @
              replicate (64 - length (mh_digest h)) 0))"

definition multihash_format :: "wire_format \<Rightarrow> bool" where
  "multihash_format f \<longleftrightarrow>
     (\<forall>code len rest h. hash_from_bytes f (code # len # rest) = Inr h \<longrightarrow>
        code < 128 \<longrightarrow> len < 128 \<longrightarrow> length rest = unat len)"

text \<open>
  C34. No acknowledgement is ever received. What a node publishes for a delivered message is the
  bincode form of its SHA-3 multihash; what arrives on the acknowledgement topic is read as the binary
  format of multihashes. That reading fails, so the receiving task drops the event instead of passing the
  acknowledgement on.
\<close>

theorem ack_never_decodes:
  assumes "bincode_layout f" and "multihash_format f"
    and "mh_code h = sha3_256_code" and "length (mh_digest h) = 32"
    and "bincode_hash f h = Some payload"
  shows "swarm_event f network_id (EvMessage (ack_topic network_id) i payload) = None"
proof -
  have le: "le_bytes sha3_256_code = [0x16, 0, 0, 0, 0, 0, 0, 0]"
    by (simp add: le_bytes_def sha3_256_code_def upt_rec)
  obtain rest where payload: "payload = 0x16 # 0 # rest" "length rest = 71"
    using assms(1,3-5) by (auto simp: bincode_layout_def le)
  have "\<exists>e. hash_from_bytes f payload = Inl e"
  proof (rule ccontr)
    assume "\<nexists>e. hash_from_bytes f payload = Inl e"
    then obtain h' where "hash_from_bytes f (0x16 # 0 # rest) = Inr h'"
      using payload(1) by (metis sum.exhaust)
    then have "length rest = unat (0::u8)"
      using assms(2) unfolding multihash_format_def by fastforce
    with payload(2) show False by simp
  qed
  then show ?thesis by (auto simp: swarm_event_def)
qed

definition strict_format :: wire_format where
  "strict_format = plain_format
     \<lparr>bincode_hash := (\<lambda>h. Some (le_bytes (mh_code h) @ word_of_nat (length (mh_digest h)) # mh_digest h @
        replicate (64 - length (mh_digest h)) 0)),
      hash_from_bytes := (\<lambda>b. case b of
          code # len # rest \<Rightarrow>
            if code < 128 \<and> len < 128 \<and> length rest = unat len
            then Inr \<lparr>mh_code = ucast code, mh_digest = rest\<rparr> else Inl ''invalid''
        | _ \<Rightarrow> Inl ''invalid'')\<rparr>"

theorem ack_never_decodes_witness:
  "\<exists>payload. bincode_hash strict_format \<lparr>mh_code = sha3_256_code, mh_digest = replicate 32 1\<rparr> = Some payload \<and>
     swarm_event strict_format ''n'' (EvMessage (ack_topic ''n'') 0 payload) = None"
proof -
  have "bincode_layout strict_format" "multihash_format strict_format"
    by (simp_all add: bincode_layout_def multihash_format_def strict_format_def)
  from ack_never_decodes [OF this, of "\<lparr>mh_code = sha3_256_code, mh_digest = replicate 32 1\<rparr>" _ "''n''" 0]
  show ?thesis by (simp add: strict_format_def)
qed

end
